theory Spec2Isabelle
  imports Main "HOL-Library.Sublist"
begin

section \<open>The file system the scaffolding script runs against\<close>

text \<open>
  The script \<^verbatim>\<open>src/web/p.py\<close> calls two methods of \<^verbatim>\<open>pathlib.Path\<close>:
  \<^verbatim>\<open>mkdir\<close> and \<^verbatim>\<open>touch\<close>. Both are thin layers over the system calls
  \<^verbatim>\<open>mkdir\<close>, \<^verbatim>\<open>utime\<close> and \<^verbatim>\<open>open\<close>. The disk is a partial map from absolute
  paths (lists of components, the root being the empty list) to entries. An entry is
  a directory or a plain file with its bytes. Names are compared byte by byte.
  Modification times, permissions, links, free space and the limits on the length of
  a name or a path are not part of the state; what a system refuses on their account
  is added further down, as a parameter of the calls.
\<close>

type_synonym path = "string list"

datatype entry = Dir | File string

type_synonym fs = "path \<Rightarrow> entry option"

text \<open>The subclasses of \<^verbatim>\<open>OSError\<close> that the calls can raise on such a disk.\<close>

datatype error = FileNotFoundError | NotADirectoryError | FileExistsError | IsADirectoryError

text \<open>
  Path resolution walks the components from the root: a missing component is
  \<^verbatim>\<open>ENOENT\<close>, a plain file that has to be traversed is \<^verbatim>\<open>ENOTDIR\<close>.
  \<open>stat_from fs cur ns\<close> resolves the components \<open>ns\<close> starting at \<open>cur\<close>.
\<close>

fun stat_from :: "fs \<Rightarrow> path \<Rightarrow> string list \<Rightarrow> error + entry" where
  "stat_from fs cur [] =
     (case fs cur of None \<Rightarrow> Inl FileNotFoundError | Some e \<Rightarrow> Inr e)"
| "stat_from fs cur (n # ns) =
     (case fs cur of
        None \<Rightarrow> Inl FileNotFoundError
      | Some (File _) \<Rightarrow> Inl NotADirectoryError
      | Some Dir \<Rightarrow> stat_from fs (cur @ [n]) ns)"

definition stat :: "fs \<Rightarrow> path \<Rightarrow> error + entry" where
  "stat fs p = stat_from fs [] p"

text \<open>
  \<^verbatim>\<open>Path.is_dir\<close>, \<^verbatim>\<open>Path.is_file\<close> and \<^verbatim>\<open>Path.exists\<close>: false when the path does not
  resolve.
\<close>

definition is_dir :: "fs \<Rightarrow> path \<Rightarrow> bool" where
  "is_dir fs p = (stat fs p = Inr Dir)"

definition is_file :: "fs \<Rightarrow> path \<Rightarrow> bool" where
  "is_file fs p = (case stat fs p of Inr (File _) \<Rightarrow> True | _ \<Rightarrow> False)"

definition exists_path :: "fs \<Rightarrow> path \<Rightarrow> bool" where
  "exists_path fs p = (case stat fs p of Inr _ \<Rightarrow> True | Inl _ \<Rightarrow> False)"

text \<open>
  \<^verbatim>\<open>os.mkdir(p)\<close>: the parent must resolve to a directory and the name must be free.
  For the root the answer is \<^verbatim>\<open>EEXIST\<close>. No name is too long here and no directory is
  closed to the caller; the system that can refuse, further down, adds that.
\<close>

definition os_mkdir :: "fs \<Rightarrow> path \<Rightarrow> error + fs" where
  "os_mkdir fs p =
     (if p = [] then Inl FileExistsError
      else case stat fs (butlast p) of
        Inl e \<Rightarrow> Inl e
      | Inr (File _) \<Rightarrow> Inl NotADirectoryError
      | Inr Dir \<Rightarrow>
          (case fs p of
             None \<Rightarrow> Inr (fs(p \<mapsto> Dir))
           | Some _ \<Rightarrow> Inl FileExistsError))"

text \<open>
  \<^verbatim>\<open>Path.mkdir(parents, exist_ok)\<close> of pathlib:
  \<^verbatim>\<open>
    try:
        os.mkdir(self, mode)
    except FileNotFoundError:
        if not parents or self.parent == self:
            raise
        self.parent.mkdir(parents=True, exist_ok=True)
        self.mkdir(mode, parents=False, exist_ok=exist_ok)
    except OSError:
        if not exist_ok or not self.is_dir():
            raise
  \<close>
  A raise carries the disk as it is at that moment: parents created on the way stay.
\<close>

function mkdir :: "bool \<Rightarrow> bool \<Rightarrow> fs \<Rightarrow> path \<Rightarrow> (error \<times> fs) + fs" where
  "mkdir parents exist_ok fs p =
     (case os_mkdir fs p of
        Inr fs' \<Rightarrow> Inr fs'
      | Inl e \<Rightarrow>
          if e = FileNotFoundError then
            (if \<not> parents \<or> p = [] then Inl (e, fs)
             else case mkdir True True fs (butlast p) of
                    Inl r \<Rightarrow> Inl r
                  | Inr fs1 \<Rightarrow> mkdir False exist_ok fs1 p)
          else if \<not> exist_ok \<or> \<not> is_dir fs p then Inl (e, fs)
          else Inr fs)"
  by pat_completeness auto
termination
  by (relation "measure (\<lambda>(parents, exist_ok, fs, p). 2 * length p + (if parents then 1 else 0))")
     auto

declare mkdir.simps [simp del]

text \<open>
  On a system that refuses nothing (a system that can refuse comes further down),
  \<^verbatim>\<open>os.utime(p)\<close> succeeds on every entry that resolves, file or directory, and changes
  nothing this state records. \<^verbatim>\<open>os.open(p, O_CREAT | O_WRONLY)\<close> creates a missing
  file with no bytes, opens an existing file without truncating it and refuses a
  directory.
\<close>

definition os_utime :: "fs \<Rightarrow> path \<Rightarrow> error + fs" where
  "os_utime fs p = (case stat fs p of Inl e \<Rightarrow> Inl e | Inr _ \<Rightarrow> Inr fs)"

definition os_open_creat :: "fs \<Rightarrow> path \<Rightarrow> error + fs" where
  "os_open_creat fs p =
     (if p = [] then Inl IsADirectoryError
      else case stat fs (butlast p) of
        Inl e \<Rightarrow> Inl e
      | Inr (File _) \<Rightarrow> Inl NotADirectoryError
      | Inr Dir \<Rightarrow>
          (case fs p of
             None \<Rightarrow> Inr (fs(p \<mapsto> File []))
           | Some (File _) \<Rightarrow> Inr fs
           | Some Dir \<Rightarrow> Inl IsADirectoryError))"

text \<open>
  \<^verbatim>\<open>Path.touch()\<close> with its default \<^verbatim>\<open>exist_ok=True\<close>:
  \<^verbatim>\<open>
    try:
        os.utime(self, None)
    except OSError:
        pass
    else:
        return
    fd = os.open(self, os.O_CREAT | os.O_WRONLY, mode)
    os.close(fd)
  \<close>
\<close>

definition touch :: "fs \<Rightarrow> path \<Rightarrow> (error \<times> fs) + fs" where
  "touch fs p =
     (case os_utime fs p of
        Inr fs' \<Rightarrow> Inr fs'
      | Inl _ \<Rightarrow> (case os_open_creat fs p of Inl e \<Rightarrow> Inl (e, fs) | Inr fs' \<Rightarrow> Inr fs'))"

section \<open>The tree description and its materialisation\<close>

text \<open>
  A tree description is a Python dict from names to contents, and a content is again
  a dict (a directory) or anything else (a file; in the script always a string). A
  dict iterates in insertion order, so it is an association list here; its keys are
  distinct and every key is read as one path component.
\<close>

datatype content = Mapping "(string \<times> content) list" | Scalar string

type_synonym tree = "(string \<times> content) list"

text \<open>
  \<^verbatim>\<open>
    def create_structure(base_path, structure):
        for name, content in structure.items():
            path = Path(base_path) / name
            if isinstance(content, dict):
                path.mkdir(parents=True, exist_ok=True)
                create_structure(path, content)
            else:
                path.touch()
  \<close>
  The result is the disk after the loop, or the exception with the disk as it was
  left when the exception was raised.
\<close>

fun create_structure :: "path \<Rightarrow> tree \<Rightarrow> fs \<Rightarrow> (error \<times> fs) + fs" where
  "create_structure base_path [] fs = Inr fs"
| "create_structure base_path ((name, content) # rest) fs =
     (case content of
        Mapping sub \<Rightarrow>
          (case mkdir True True fs (base_path @ [name]) of
             Inl r \<Rightarrow> Inl r
           | Inr fs1 \<Rightarrow>
               (case create_structure (base_path @ [name]) sub fs1 of
                  Inl r \<Rightarrow> Inl r
                | Inr fs2 \<Rightarrow> create_structure base_path rest fs2))
      | Scalar _ \<Rightarrow>
          (case touch fs (base_path @ [name]) of
             Inl r \<Rightarrow> Inl r
           | Inr fs1 \<Rightarrow> create_structure base_path rest fs1))"

text \<open>The disk a run leaves behind, whether it returned or raised.\<close>

fun final :: "(error \<times> fs) + fs \<Rightarrow> fs" where
  "final (Inl (e, fs)) = fs"
| "final (Inr fs) = fs"

text \<open>
  The paths a tree description designates under a base path: \<open>dir_paths\<close> lists the
  path of every node whose value is a mapping, \<open>file_paths\<close> the path of every node
  whose value is a scalar, each the base path followed by the keys from the root of
  the description down to the node.
\<close>

fun dir_paths :: "path \<Rightarrow> tree \<Rightarrow> path list" where
  "dir_paths base_path [] = []"
| "dir_paths base_path ((name, content) # rest) =
     (case content of
        Mapping sub \<Rightarrow> (base_path @ [name]) # dir_paths (base_path @ [name]) sub
      | Scalar _ \<Rightarrow> [])
     @ dir_paths base_path rest"

fun file_paths :: "path \<Rightarrow> tree \<Rightarrow> path list" where
  "file_paths base_path [] = []"
| "file_paths base_path ((name, content) # rest) =
     (case content of
        Mapping sub \<Rightarrow> file_paths (base_path @ [name]) sub
      | Scalar _ \<Rightarrow> [base_path @ [name]])
     @ file_paths base_path rest"

text \<open>
  What a Python dict with file names as keys guarantees: the keys of one mapping are
  pairwise different, and a key is a single path component (not empty, no separator,
  no zero byte, neither \<^verbatim>\<open>.\<close> nor \<^verbatim>\<open>..\<close>), so that \<^verbatim>\<open>Path(base_path) / name\<close> is the
  base path with one more component.
\<close>

definition plain_name :: "string \<Rightarrow> bool" where
  "plain_name name =
     (name \<noteq> [] \<and> CHR ''/'' \<notin> set name \<and> CHR 0x00 \<notin> set name \<and>
      name \<noteq> ''.'' \<and> name \<noteq> ''..'')"

fun tree_ok :: "tree \<Rightarrow> bool" where
  "tree_ok [] = True"
| "tree_ok ((name, content) # rest) =
     (plain_name name \<and> name \<notin> set (map fst rest) \<and>
      (case content of Mapping sub \<Rightarrow> tree_ok sub | Scalar _ \<Rightarrow> True) \<and>
      tree_ok rest)"

text \<open>
  The calls \<open>create_structure\<close> makes, in the order it makes them, each with the disk
  it is made on. A call that raises is the last one.
\<close>

datatype call = Mkdir path | Touch path

fun call_path :: "call \<Rightarrow> path" where
  "call_path (Mkdir p) = p"
| "call_path (Touch p) = p"

fun exec_call :: "call \<Rightarrow> fs \<Rightarrow> (error \<times> fs) + fs" where
  "exec_call (Mkdir p) fs = mkdir True True fs p"
| "exec_call (Touch p) fs = touch fs p"

fun calls :: "path \<Rightarrow> tree \<Rightarrow> fs \<Rightarrow> (call \<times> fs) list" where
  "calls base_path [] fs = []"
| "calls base_path ((name, content) # rest) fs =
     (case content of
        Mapping sub \<Rightarrow>
          (Mkdir (base_path @ [name]), fs) #
          (case mkdir True True fs (base_path @ [name]) of
             Inl r \<Rightarrow> []
           | Inr fs1 \<Rightarrow>
               calls (base_path @ [name]) sub fs1 @
               (case create_structure (base_path @ [name]) sub fs1 of
                  Inl r \<Rightarrow> []
                | Inr fs2 \<Rightarrow> calls base_path rest fs2))
      | Scalar _ \<Rightarrow>
          (Touch (base_path @ [name]), fs) #
          (case touch fs (base_path @ [name]) of
             Inl r \<Rightarrow> []
           | Inr fs1 \<Rightarrow> calls base_path rest fs1))"

text \<open>Running a list of calls one after the other, stopping at the first that raises.\<close>

fun run_calls :: "call list \<Rightarrow> fs \<Rightarrow> (error \<times> fs) + fs" where
  "run_calls [] fs = Inr fs"
| "run_calls (c # cs) fs =
     (case exec_call c fs of Inl r \<Rightarrow> Inl r | Inr fs1 \<Rightarrow> run_calls cs fs1)"

text \<open>The same run, keeping with every call the disk it was made on.\<close>

fun trace :: "call list \<Rightarrow> fs \<Rightarrow> (call \<times> fs) list" where
  "trace [] fs = []"
| "trace (c # cs) fs =
     (c, fs) # (case exec_call c fs of Inl r \<Rightarrow> [] | Inr fs1 \<Rightarrow> trace cs fs1)"

section \<open>The entry point and its catalog\<close>

text \<open>The literal \<^verbatim>\<open>structure\<close> of \<^verbatim>\<open>create_directory_structure\<close>, entry by entry.\<close>

definition "structure" :: tree where
  "structure =
     [(''whatsapp-web-clone'', Mapping
       [(''src'', Mapping
         [(''app'', Mapping
           [(''(auth)'', Mapping
             [(''login'', Mapping
               [(''page.tsx'', Scalar '''')]),
              (''register'', Mapping
               [(''page.tsx'', Scalar '''')]),
              (''verify'', Mapping
               [(''page.tsx'', Scalar '''')]),
              (''layout.tsx'', Scalar '''')]),
            (''(main)'', Mapping
             [(''chat'', Mapping
               [(''[chatId]'', Mapping
                 [(''page.tsx'', Scalar '''')]),
                (''page.tsx'', Scalar '''')]),
              (''profile'', Mapping
               [(''page.tsx'', Scalar '''')]),
              (''settings'', Mapping
               [(''page.tsx'', Scalar '''')]),
              (''layout.tsx'', Scalar '''')]),
            (''api'', Mapping
             [(''upload'', Mapping
               [(''route.ts'', Scalar '''')])]),
            (''globals.css'', Scalar ''''),
            (''layout.tsx'', Scalar ''''),
            (''loading.tsx'', Scalar ''''),
            (''not-found.tsx'', Scalar ''''),
            (''page.tsx'', Scalar '''')]),
          (''components'', Mapping
           [(''ui'', Mapping
             [(''avatar.tsx'', Scalar ''''),
              (''button.tsx'', Scalar ''''),
              (''card.tsx'', Scalar ''''),
              (''dialog.tsx'', Scalar ''''),
              (''form.tsx'', Scalar ''''),
              (''input.tsx'', Scalar ''''),
              (''label.tsx'', Scalar ''''),
              (''scroll-area.tsx'', Scalar ''''),
              (''separator.tsx'', Scalar ''''),
              (''toast.tsx'', Scalar ''''),
              (''toaster.tsx'', Scalar ''''),
              (''tooltip.tsx'', Scalar '''')]),
            (''auth'', Mapping
             [(''magic-link-form.tsx'', Scalar ''''),
              (''qr-code-scanner.tsx'', Scalar ''''),
              (''register-form.tsx'', Scalar ''''),
              (''auth-guard.tsx'', Scalar '''')]),
            (''chat'', Mapping
             [(''chat-list.tsx'', Scalar ''''),
              (''chat-item.tsx'', Scalar ''''),
              (''chat-header.tsx'', Scalar ''''),
              (''message-list.tsx'', Scalar ''''),
              (''message-item.tsx'', Scalar ''''),
              (''message-input.tsx'', Scalar ''''),
              (''typing-indicator.tsx'', Scalar ''''),
              (''message-status.tsx'', Scalar ''''),
              (''new-chat-dialog.tsx'', Scalar '''')]),
            (''media'', Mapping
             [(''image-viewer.tsx'', Scalar ''''),
              (''file-upload.tsx'', Scalar ''''),
              (''voice-recorder.tsx'', Scalar ''''),
              (''media-gallery.tsx'', Scalar '''')]),
            (''layout'', Mapping
             [(''sidebar.tsx'', Scalar ''''),
              (''header.tsx'', Scalar ''''),
              (''mobile-nav.tsx'', Scalar ''''),
              (''search-bar.tsx'', Scalar '''')]),
            (''common'', Mapping
             [(''loading-spinner.tsx'', Scalar ''''),
              (''error-boundary.tsx'', Scalar ''''),
              (''theme-provider.tsx'', Scalar ''''),
              (''socket-provider.tsx'', Scalar '''')])]),
          (''lib'', Mapping
           [(''utils.ts'', Scalar ''''),
            (''auth.ts'', Scalar ''''),
            (''api.ts'', Scalar ''''),
            (''socket.ts'', Scalar ''''),
            (''validation.ts'', Scalar ''''),
            (''constants.ts'', Scalar ''''),
            (''storage.ts'', Scalar '''')]),
          (''hooks'', Mapping
           [(''use-auth.ts'', Scalar ''''),
            (''use-socket.ts'', Scalar ''''),
            (''use-chat.ts'', Scalar ''''),
            (''use-messages.ts'', Scalar ''''),
            (''use-toast.ts'', Scalar ''''),
            (''use-media-query.ts'', Scalar ''''),
            (''use-local-storage.ts'', Scalar '''')]),
          (''types'', Mapping
           [(''auth.ts'', Scalar ''''),
            (''chat.ts'', Scalar ''''),
            (''message.ts'', Scalar ''''),
            (''user.ts'', Scalar ''''),
            (''api.ts'', Scalar '''')]),
          (''store'', Mapping
           [(''auth-store.ts'', Scalar ''''),
            (''chat-store.ts'', Scalar ''''),
            (''message-store.ts'', Scalar ''''),
            (''ui-store.ts'', Scalar '''')]),
          (''config'', Mapping
           [(''env.ts'', Scalar ''''),
            (''api-endpoints.ts'', Scalar '''')])]),
        (''public'', Mapping
         [(''icons'', Mapping
           [(''whatsapp.svg'', Scalar ''''),
            (''send.svg'', Scalar ''''),
            (''attachment.svg'', Scalar '''')]),
          (''images'', Mapping
           [(''default-avatar.png'', Scalar ''''),
            (''qr-code-placeholder.png'', Scalar ''''),
            (''whatsapp-bg.jpg'', Scalar '''')]),
          (''sounds'', Mapping
           [(''notification.mp3'', Scalar ''''),
            (''message-sent.mp3'', Scalar '''')]),
          (''favicon.ico'', Scalar ''''),
          (''manifest.json'', Scalar '''')]),
        (''next.config.js'', Scalar ''''),
        (''tailwind.config.js'', Scalar ''''),
        (''tsconfig.json'', Scalar ''''),
        (''components.json'', Scalar ''''),
        (''.env.local'', Scalar ''''),
        (''.env.example'', Scalar ''''),
        (''.gitignore'', Scalar ''''),
        (''README.md'', Scalar ''''),
        (''package.json'', Scalar '''')])]"

text \<open>How a path prints: its components, each after a separator.\<close>

definition str_path :: "path \<Rightarrow> string" where
  "str_path p = (if p = [] then ''/'' else concat (map (\<lambda>c. CHR ''/'' # c) p))"

text \<open>
  \<^verbatim>\<open>
    base_dir = Path.cwd() / "whatsapp-web-clone"
    base_dir.mkdir(exist_ok=True)
    create_structure(base_dir, structure)
    print(f"Project structure created successfully at: {base_dir}")
  \<close>
  The working directory is a parameter; a run that returns gives the disk and the
  line it printed.
\<close>

definition create_directory_structure :: "path \<Rightarrow> fs \<Rightarrow> (error \<times> fs) + (fs \<times> string)" where
  "create_directory_structure cwd fs =
     (let base_dir = cwd @ [''whatsapp-web-clone''] in
      case mkdir False True fs base_dir of
        Inl r \<Rightarrow> Inl r
      | Inr fs1 \<Rightarrow>
          (case create_structure base_dir structure fs1 of
             Inl r \<Rightarrow> Inl r
           | Inr fs2 \<Rightarrow>
               Inr (fs2, ''Project structure created successfully at: '' @ str_path base_dir)))"

text \<open>
  One disk extends another when every entry of the first is unchanged in the second
  and every new entry is a directory or a file without bytes.
\<close>

definition grows :: "fs \<Rightarrow> fs \<Rightarrow> bool" where
  "grows fs fs' =
     (\<forall>q. fs' q = fs q \<or> (fs q = None \<and> (fs' q = Some Dir \<or> fs' q = Some (File []))))"

text \<open>
  \<open>adds fs fs' D F\<close> says where the new entries are: new directories at paths of \<open>D\<close>,
  new empty files at paths of \<open>F\<close>, nothing else touched.
\<close>

definition adds :: "fs \<Rightarrow> fs \<Rightarrow> path set \<Rightarrow> path set \<Rightarrow> bool" where
  "adds fs fs' D F =
     (\<forall>q. fs' q = fs q \<or>
          (fs q = None \<and> (fs' q = Some Dir \<and> q \<in> D \<or> fs' q = Some (File []) \<and> q \<in> F)))"

text \<open>
  On a real disk the root is a directory and every entry lies in a directory. The
  calls above resolve each path component by component, so they are defined on every
  map; on a map of this shape an entry is what its path resolves to.
\<close>

definition tree_disk :: "fs \<Rightarrow> bool" where
  "tree_disk fs = (fs [] = Some Dir \<and> (\<forall>p n. fs (p @ [n]) \<noteq> None \<longrightarrow> fs p = Some Dir))"

section \<open>A small tree on a small disk\<close>

text \<open>
  The tree \<^verbatim>\<open>{"root": {"a": {"x.txt": ""}, "b.txt": ""}}\<close> under the empty directory
  \<^verbatim>\<open>/tmp/test1\<close>, and the disk a run leaves there.
\<close>

definition scenario_tree :: tree where
  "scenario_tree =
     [(''root'', Mapping [(''a'', Mapping [(''x.txt'', Scalar '''')]), (''b.txt'', Scalar '''')])]"

definition scenario_base :: path where
  "scenario_base = [''tmp'', ''test1'']"

definition scenario_disk :: fs where
  "scenario_disk = Map.empty([] \<mapsto> Dir, [''tmp''] \<mapsto> Dir, [''tmp'', ''test1''] \<mapsto> Dir)"

definition scenario_done :: fs where
  "scenario_done = scenario_disk
     ([''tmp'', ''test1'', ''root''] \<mapsto> Dir,
      [''tmp'', ''test1'', ''root'', ''a''] \<mapsto> Dir,
      [''tmp'', ''test1'', ''root'', ''a'', ''x.txt''] \<mapsto> File [],
      [''tmp'', ''test1'', ''root'', ''b.txt''] \<mapsto> File [])"

text \<open>
  The same tree where \<^verbatim>\<open>root\<close> is there already and \<^verbatim>\<open>b.txt\<close> is a directory in it.
\<close>

definition occupied_disk :: fs where
  "occupied_disk = scenario_disk
     ([''tmp'', ''test1'', ''root''] \<mapsto> Dir,
      [''tmp'', ''test1'', ''root'', ''b.txt''] \<mapsto> Dir)"

definition occupied_done :: fs where
  "occupied_done = occupied_disk
     ([''tmp'', ''test1'', ''root'', ''a''] \<mapsto> Dir,
      [''tmp'', ''test1'', ''root'', ''a'', ''x.txt''] \<mapsto> File [])"

text \<open>The same tree where \<^verbatim>\<open>b.txt\<close> is a file that holds four bytes.\<close>

definition kept_disk :: fs where
  "kept_disk = scenario_disk
     ([''tmp'', ''test1'', ''root''] \<mapsto> Dir,
      [''tmp'', ''test1'', ''root'', ''b.txt''] \<mapsto> File ''data'')"

definition kept_done :: fs where
  "kept_done = kept_disk
     ([''tmp'', ''test1'', ''root'', ''a''] \<mapsto> Dir,
      [''tmp'', ''test1'', ''root'', ''a'', ''x.txt''] \<mapsto> File [])"

text \<open>
  A tree with a directory before a file, \<^verbatim>\<open>{"docs": {}, "README.md": ""}\<close>: on one disk
  a directory has the name of the file, on the other a file has the name of the
  directory.
\<close>

definition collision_tree :: tree where
  "collision_tree = [(''docs'', Mapping []), (''README.md'', Scalar '''')]"

definition dir_at_file_disk :: fs where
  "dir_at_file_disk = scenario_disk([''tmp'', ''test1'', ''README.md''] \<mapsto> Dir)"

definition file_at_dir_disk :: fs where
  "file_at_dir_disk = scenario_disk([''tmp'', ''test1'', ''docs''] \<mapsto> File ''x'')"

text \<open>A tree whose second entry is the one that fails on the second of these disks.\<close>

definition before_tree :: tree where
  "before_tree = [(''src'', Mapping [(''main.py'', Scalar '''')])]"

definition after_tree :: tree where
  "after_tree = [(''README.md'', Scalar '''')]"


text \<open>A disk with a home directory and nothing in it.\<close>

definition home_disk :: fs where
  "home_disk = Map.empty([] \<mapsto> Dir, [''home''] \<mapsto> Dir)"

section \<open>Properties of a disk with respect to a tree\<close>

text \<open>
  Structural fidelity as the specification words it: every designated path exists, as
  a directory where the value is a mapping and as a file where it is a scalar.
\<close>

definition structural_fidelity :: "path \<Rightarrow> tree \<Rightarrow> fs \<Rightarrow> bool" where
  "structural_fidelity P T fs =
     (list_all (is_dir fs) (dir_paths P T) \<and> list_all (is_file fs) (file_paths P T))"


text \<open>The scalar nodes of a tree with their values, in the order of \<open>file_paths\<close>.\<close>

fun scalars :: "path \<Rightarrow> tree \<Rightarrow> (path \<times> string) list" where
  "scalars base_path [] = []"
| "scalars base_path ((name, content) # rest) =
     (case content of
        Mapping sub \<Rightarrow> scalars (base_path @ [name]) sub
      | Scalar v \<Rightarrow> [(base_path @ [name], v)])
     @ scalars base_path rest"

section \<open>A system that can refuse a call\<close>

text \<open>
  The calls above are the calls on a system that never refuses: they fail only for the
  kind of an entry or for a missing one. A real system refuses a call for other
  reasons too: the caller may not search or write a directory, neither owns an entry
  nor may write it, a name is longer than the file system takes, the disk is full or
  mounted read-only. A \<open>system\<close> says, for each kind of call and each path, whether the
  call is refused there and for which of these reasons: \<^verbatim>\<open>PermissionError\<close>
  (\<^verbatim>\<open>EACCES\<close>, \<^verbatim>\<open>EPERM\<close>), or an \<^verbatim>\<open>OSError\<close> for a name or path that is too long
  (\<^verbatim>\<open>ENAMETOOLONG\<close>), a full disk or quota (\<^verbatim>\<open>ENOSPC\<close>, \<^verbatim>\<open>EDQUOT\<close>), a read-only file
  system (\<^verbatim>\<open>EROFS\<close>) or a failing device (\<^verbatim>\<open>EIO\<close>). None of them is an error that
  \<^verbatim>\<open>pathlib\<close> handles in a way of its own.
  There are five places where a call can be refused: when the kernel takes the path of
  the call, before anything is looked up (\<open>Sys_path\<close>: a path longer than the system
  takes); when a component is looked up (\<open>Sys_stat\<close>: a directory the caller may not
  search, a name longer than the file system takes); and when the call has reached
  its entry and is about to make a directory, set the times, or open or make a file.
\<close>

datatype syscall = Sys_path | Sys_stat | Sys_mkdir | Sys_utime | Sys_open

datatype refusal = PermissionError | NameTooLong | NoSpace | ReadOnly | IOFailure

datatype os_error = Kind error | Refused refusal

type_synonym system = "syscall \<Rightarrow> path \<Rightarrow> refusal option"

definition allows :: "system \<Rightarrow> path \<Rightarrow> bool" where
  "allows sys p =
     (sys Sys_path p = None \<and> sys Sys_stat p = None \<and> sys Sys_mkdir p = None \<and>
      sys Sys_utime p = None \<and> sys Sys_open p = None)"

text \<open>
  Path resolution looks up one component after the other, and the system can refuse
  each lookup.
\<close>

fun stat_from_on :: "system \<Rightarrow> fs \<Rightarrow> path \<Rightarrow> string list \<Rightarrow> os_error + entry" where
  "stat_from_on sys fs cur [] =
     (case sys Sys_stat cur of
        Some r \<Rightarrow> Inl (Refused r)
      | None \<Rightarrow>
          (case fs cur of None \<Rightarrow> Inl (Kind FileNotFoundError) | Some e \<Rightarrow> Inr e))"
| "stat_from_on sys fs cur (n # ns) =
     (case sys Sys_stat cur of
        Some r \<Rightarrow> Inl (Refused r)
      | None \<Rightarrow>
          (case fs cur of
             None \<Rightarrow> Inl (Kind FileNotFoundError)
           | Some (File _) \<Rightarrow> Inl (Kind NotADirectoryError)
           | Some Dir \<Rightarrow> stat_from_on sys fs (cur @ [n]) ns))"

definition resolve_on :: "system \<Rightarrow> fs \<Rightarrow> path \<Rightarrow> os_error + entry" where
  "resolve_on sys fs p = stat_from_on sys fs [] p"

definition stat_on :: "system \<Rightarrow> fs \<Rightarrow> path \<Rightarrow> os_error + entry" where
  "stat_on sys fs p =
     (case sys Sys_path p of Some r \<Rightarrow> Inl (Refused r) | None \<Rightarrow> resolve_on sys fs p)"

text \<open>
  \<^verbatim>\<open>Path.is_dir\<close> answers false when \<^verbatim>\<open>stat\<close> finds nothing, and lets any other
  \<^verbatim>\<open>OSError\<close> of \<^verbatim>\<open>stat\<close> pass to its caller.
\<close>

definition is_dir_on :: "system \<Rightarrow> fs \<Rightarrow> path \<Rightarrow> os_error + bool" where
  "is_dir_on sys fs p =
     (case stat_on sys fs p of
        Inr en \<Rightarrow> Inr (en = Dir)
      | Inl (Kind e) \<Rightarrow> Inr False
      | Inl (Refused r) \<Rightarrow> Inl (Refused r))"

text \<open>
  \<^verbatim>\<open>os.mkdir(p)\<close>: the path is taken, the parent is resolved, an existing entry is
  \<^verbatim>\<open>EEXIST\<close>, and only then can the system refuse to make the directory.
\<close>

definition os_mkdir_on :: "system \<Rightarrow> fs \<Rightarrow> path \<Rightarrow> os_error + fs" where
  "os_mkdir_on sys fs p =
     (if p = [] then Inl (Kind FileExistsError)
      else case sys Sys_path p of
        Some r \<Rightarrow> Inl (Refused r)
      | None \<Rightarrow>
          (case resolve_on sys fs (butlast p) of
             Inl e \<Rightarrow> Inl e
           | Inr (File _) \<Rightarrow> Inl (Kind NotADirectoryError)
           | Inr Dir \<Rightarrow>
               (case fs p of
                  Some _ \<Rightarrow> Inl (Kind FileExistsError)
                | None \<Rightarrow>
                    (case sys Sys_mkdir p of
                       Some r \<Rightarrow> Inl (Refused r)
                     | None \<Rightarrow> Inr (fs(p \<mapsto> Dir))))))"

text \<open>
  \<^verbatim>\<open>Path.mkdir(parents, exist_ok)\<close> as above; an exception of \<^verbatim>\<open>is_dir\<close> inside the
  handler replaces the one being handled.
\<close>

function mkdir_on :: "system \<Rightarrow> bool \<Rightarrow> bool \<Rightarrow> fs \<Rightarrow> path \<Rightarrow> (os_error \<times> fs) + fs" where
  "mkdir_on sys parents exist_ok fs p =
     (case os_mkdir_on sys fs p of
        Inr fs' \<Rightarrow> Inr fs'
      | Inl e \<Rightarrow>
          if e = Kind FileNotFoundError then
            (if \<not> parents \<or> p = [] then Inl (e, fs)
             else case mkdir_on sys True True fs (butlast p) of
                    Inl r \<Rightarrow> Inl r
                  | Inr fs1 \<Rightarrow> mkdir_on sys False exist_ok fs1 p)
          else if \<not> exist_ok then Inl (e, fs)
          else
            (case is_dir_on sys fs p of
               Inl e' \<Rightarrow> Inl (e', fs)
             | Inr True \<Rightarrow> Inr fs
             | Inr False \<Rightarrow> Inl (e, fs)))"
  by pat_completeness auto
termination
  by (relation "measure (\<lambda>(sys, parents, exist_ok, fs, p).
        2 * length p + (if parents then 1 else 0))")
     auto

declare mkdir_on.simps [simp del]

text \<open>
  \<^verbatim>\<open>os.utime(p)\<close> can be refused on an entry that is there: the times of an entry are
  set by its owner or by who may write it. \<^verbatim>\<open>os.open(p, O_CREAT | O_WRONLY)\<close> is
  \<^verbatim>\<open>EISDIR\<close> on a directory, and can be refused when it opens a file for writing and
  when it has to make one.
\<close>

definition os_utime_on :: "system \<Rightarrow> fs \<Rightarrow> path \<Rightarrow> os_error + fs" where
  "os_utime_on sys fs p =
     (case stat_on sys fs p of
        Inl e \<Rightarrow> Inl e
      | Inr _ \<Rightarrow>
          (case sys Sys_utime p of Some r \<Rightarrow> Inl (Refused r) | None \<Rightarrow> Inr fs))"

definition os_open_creat_on :: "system \<Rightarrow> fs \<Rightarrow> path \<Rightarrow> os_error + fs" where
  "os_open_creat_on sys fs p =
     (if p = [] then Inl (Kind IsADirectoryError)
      else case sys Sys_path p of
        Some r \<Rightarrow> Inl (Refused r)
      | None \<Rightarrow>
          (case resolve_on sys fs (butlast p) of
             Inl e \<Rightarrow> Inl e
           | Inr (File _) \<Rightarrow> Inl (Kind NotADirectoryError)
           | Inr Dir \<Rightarrow>
               (case fs p of
                  Some Dir \<Rightarrow> Inl (Kind IsADirectoryError)
                | Some (File _) \<Rightarrow>
                    (case sys Sys_open p of Some r \<Rightarrow> Inl (Refused r) | None \<Rightarrow> Inr fs)
                | None \<Rightarrow>
                    (case sys Sys_open p of
                       Some r \<Rightarrow> Inl (Refused r)
                     | None \<Rightarrow> Inr (fs(p \<mapsto> File []))))))"

definition touch_on :: "system \<Rightarrow> fs \<Rightarrow> path \<Rightarrow> (os_error \<times> fs) + fs" where
  "touch_on sys fs p =
     (case os_utime_on sys fs p of
        Inr fs' \<Rightarrow> Inr fs'
      | Inl _ \<Rightarrow>
          (case os_open_creat_on sys fs p of Inl e \<Rightarrow> Inl (e, fs) | Inr fs' \<Rightarrow> Inr fs'))"

text \<open>The loop of \<^verbatim>\<open>create_structure\<close> on such a system.\<close>

fun create_structure_on :: "system \<Rightarrow> path \<Rightarrow> tree \<Rightarrow> fs \<Rightarrow> (os_error \<times> fs) + fs" where
  "create_structure_on sys base_path [] fs = Inr fs"
| "create_structure_on sys base_path ((name, content) # rest) fs =
     (case content of
        Mapping sub \<Rightarrow>
          (case mkdir_on sys True True fs (base_path @ [name]) of
             Inl r \<Rightarrow> Inl r
           | Inr fs1 \<Rightarrow>
               (case create_structure_on sys (base_path @ [name]) sub fs1 of
                  Inl r \<Rightarrow> Inl r
                | Inr fs2 \<Rightarrow> create_structure_on sys base_path rest fs2))
      | Scalar _ \<Rightarrow>
          (case touch_on sys fs (base_path @ [name]) of
             Inl r \<Rightarrow> Inl r
           | Inr fs1 \<Rightarrow> create_structure_on sys base_path rest fs1))"

fun final_on :: "(os_error \<times> fs) + fs \<Rightarrow> fs" where
  "final_on (Inl (e, fs)) = fs"
| "final_on (Inr fs) = fs"

text \<open>A result on the system that never refuses, read as a result on any system.\<close>

fun lift :: "(error \<times> fs) + fs \<Rightarrow> (os_error \<times> fs) + fs" where
  "lift (Inl (e, fs)) = Inl (Kind e, fs)"
| "lift (Inr fs) = Inr fs"

text \<open>
  Three systems: one that never refuses, one whose file system takes names of at most
  \<open>n\<close> bytes (the path is taken, the name fails when it is looked up or made), and one
  where the caller may not set the times of the entry at \<open>q\<close> (it belongs to someone
  else and the caller may not write it).
\<close>

definition lenient :: system where
  "lenient c p = None"

definition name_limit :: "nat \<Rightarrow> system" where
  "name_limit n c p =
     (if c \<noteq> Sys_path \<and> p \<noteq> [] \<and> n < length (last p) then Some NameTooLong else None)"

definition foreign_entry :: "path \<Rightarrow> system" where
  "foreign_entry q c p = (if c = Sys_utime \<and> p = q then Some PermissionError else None)"

text \<open>A name of 256 bytes, one more than most file systems take.\<close>

definition long_name :: string where
  "long_name = replicate 256 (CHR ''a'')"

section \<open>Path resolution\<close>

lemma stat_Nil: "stat fs [] = (case fs [] of None \<Rightarrow> Inl FileNotFoundError | Some e \<Rightarrow> Inr e)"
  by (simp add: stat_def)

lemma stat_from_snoc:
  "stat_from fs cur (ns @ [n]) =
     (case stat_from fs cur ns of
        Inl e \<Rightarrow> Inl e
      | Inr (File _) \<Rightarrow> Inl NotADirectoryError
      | Inr Dir \<Rightarrow> (case fs (cur @ ns @ [n]) of None \<Rightarrow> Inl FileNotFoundError | Some e \<Rightarrow> Inr e))"
  by (induction ns arbitrary: cur) (auto split: option.splits entry.splits sum.splits)

lemma stat_snoc:
  "stat fs (p @ [n]) =
     (case stat fs p of
        Inl e \<Rightarrow> Inl e
      | Inr (File _) \<Rightarrow> Inl NotADirectoryError
      | Inr Dir \<Rightarrow> (case fs (p @ [n]) of None \<Rightarrow> Inl FileNotFoundError | Some e \<Rightarrow> Inr e))"
  by (simp add: stat_def stat_from_snoc split: sum.splits entry.splits)

lemma stat_Inr_entry: "stat fs p = Inr e \<Longrightarrow> fs p = Some e"
  by (cases p rule: rev_cases)
     (auto simp: stat_Nil stat_snoc split: option.splits sum.splits entry.splits)

lemma is_dir_Nil: "is_dir fs [] \<longleftrightarrow> fs [] = Some Dir"
  by (auto simp: is_dir_def stat_Nil split: option.splits)

lemma is_dir_snoc: "is_dir fs (p @ [n]) \<longleftrightarrow> is_dir fs p \<and> fs (p @ [n]) = Some Dir"
  by (auto simp: is_dir_def stat_snoc split: option.splits sum.splits entry.splits)

lemma is_dir_entry: "is_dir fs p \<Longrightarrow> fs p = Some Dir"
  by (simp add: is_dir_def stat_Inr_entry)



lemma is_dir_iff: "is_dir fs p \<longleftrightarrow> (\<forall>q. prefix q p \<longrightarrow> fs q = Some Dir)"
proof (induction p rule: rev_induct)
  case Nil
  then show ?case by (simp add: is_dir_Nil)
next
  case (snoc n p)
  then show ?case by (auto simp: is_dir_snoc)
qed

lemma stat_under_dir:
  "is_dir fs p \<Longrightarrow>
   stat fs (p @ [n]) = (case fs (p @ [n]) of None \<Rightarrow> Inl FileNotFoundError | Some e \<Rightarrow> Inr e)"
  by (simp add: stat_snoc is_dir_def)

lemma stat_Inr_parent: "stat fs (p @ [n]) = Inr e \<Longrightarrow> is_dir fs p"
  by (auto simp: is_dir_def stat_snoc split: option.splits sum.splits entry.splits)

lemma exists_path_iff: "exists_path fs p \<longleftrightarrow> (\<exists>e. stat fs p = Inr e)"
  by (auto simp: exists_path_def split: sum.splits)

lemma is_dir_exists: "is_dir fs p \<Longrightarrow> exists_path fs p"
  by (simp add: exists_path_iff is_dir_def)

lemma is_file_iff: "is_file fs p \<longleftrightarrow> (\<exists>c. stat fs p = Inr (File c))"
  by (auto simp: is_file_def split: sum.splits entry.splits)

lemma stat_NotADirectory:
  "stat fs p = Inl NotADirectoryError \<Longrightarrow> \<exists>q c. strict_prefix q p \<and> fs q = Some (File c)"
proof (induction p rule: rev_induct)
  case Nil
  then show ?case by (simp add: stat_Nil split: option.splits)
next
  case (snoc n p)
  show ?case
  proof (cases "stat fs p")
    case (Inl e)
    with snoc.prems have "stat fs p = Inl NotADirectoryError" by (simp add: stat_snoc)
    from snoc.IH[OF this] obtain q c where "strict_prefix q p" "fs q = Some (File c)" by blast
    then have "strict_prefix q (p @ [n])" "fs q = Some (File c)"
      by (auto simp: strict_prefix_def prefix_def)
    then show ?thesis by blast
  next
    case (Inr en)
    show ?thesis
    proof (cases en)
      case Dir
      with Inr snoc.prems show ?thesis by (simp add: stat_snoc split: option.splits)
    next
      case (File c)
      with Inr have "fs p = Some (File c)" by (simp add: stat_Inr_entry)
      moreover have "strict_prefix p (p @ [n])" by (simp add: strict_prefix_def)
      ultimately show ?thesis by blast
    qed
  qed
qed

lemma stat_error_kinds:
  "stat fs p = Inl e \<Longrightarrow> e = FileNotFoundError \<or> e = NotADirectoryError"
  by (induction p arbitrary: e rule: rev_induct)
     (auto simp: stat_Nil stat_snoc split: option.splits sum.splits entry.splits)

lemma stat_through_file:
  "stat fs q = Inr (File c) \<Longrightarrow> strict_prefix q p \<Longrightarrow> stat fs p = Inl NotADirectoryError"
proof (induction p rule: rev_induct)
  case Nil
  then show ?case by simp
next
  case (snoc n p)
  from snoc.prems(2) have "q = p \<or> strict_prefix q p"
    by (auto simp: strict_prefix_def)
  then show ?case
  proof
    assume "q = p"
    with snoc.prems(1) show ?thesis by (simp add: stat_snoc)
  next
    assume "strict_prefix q p"
    from snoc.IH[OF snoc.prems(1) this] show ?thesis by (simp add: stat_snoc)
  qed
qed

section \<open>Disks that only grow\<close>

lemma grows_refl: "grows fs fs"
  by (simp add: grows_def)

lemma grows_trans: "grows a b \<Longrightarrow> grows b c \<Longrightarrow> grows a c"
  unfolding grows_def by (metis option.distinct(1))

lemma grows_upd_Dir: "fs p = None \<Longrightarrow> grows fs (fs(p \<mapsto> Dir))"
  by (simp add: grows_def)

lemma grows_upd_File: "fs p = None \<Longrightarrow> grows fs (fs(p \<mapsto> File []))"
  by (simp add: grows_def)

lemma grows_Some: "grows fs fs' \<Longrightarrow> fs q = Some e \<Longrightarrow> fs' q = Some e"
  unfolding grows_def by (metis option.distinct(1))

lemma grows_is_dir: "grows fs fs' \<Longrightarrow> is_dir fs p \<Longrightarrow> is_dir fs' p"
  by (simp add: is_dir_iff grows_Some)

lemma grows_stat: "grows fs fs' \<Longrightarrow> stat fs p = Inr e \<Longrightarrow> stat fs' p = Inr e"
proof (cases p rule: rev_cases)
  case Nil
  assume "grows fs fs'" "stat fs p = Inr e"
  with Nil show ?thesis
    by (auto simp: stat_Nil split: option.splits dest: grows_Some)
next
  case (snoc q n)
  assume g: "grows fs fs'" and s: "stat fs p = Inr e"
  from s snoc have "is_dir fs q" "fs (q @ [n]) = Some e"
    by (auto dest: stat_Inr_parent stat_Inr_entry)
  with g have "is_dir fs' q" "fs' (q @ [n]) = Some e"
    by (auto dest: grows_is_dir grows_Some)
  with snoc show ?thesis by (simp add: stat_under_dir)
qed

lemma grows_exists: "grows fs fs' \<Longrightarrow> exists_path fs p \<Longrightarrow> exists_path fs' p"
  by (auto simp: exists_path_def split: sum.splits dest: grows_stat)

lemma adds_refl: "adds fs fs D F"
  by (simp add: adds_def)

lemma adds_trans: "adds a b D F \<Longrightarrow> adds b c D F \<Longrightarrow> adds a c D F"
  unfolding adds_def by (metis option.distinct(1))

lemma adds_mono: "adds a b D F \<Longrightarrow> D \<subseteq> D' \<Longrightarrow> F \<subseteq> F' \<Longrightarrow> adds a b D' F'"
  unfolding adds_def by blast

lemma adds_grows: "adds a b D F \<Longrightarrow> grows a b"
  unfolding adds_def grows_def by blast

lemma adds_File_old:
  "adds fs fs' D {} \<Longrightarrow> fs' q = Some (File c) \<Longrightarrow> fs q = Some (File c)"
  unfolding adds_def by (metis empty_iff entry.distinct(1) option.inject)

section \<open>The two methods of a path\<close>

subsection \<open>Creating directories\<close>

lemma os_mkdir_Inr:
  "os_mkdir fs p = Inr fs' \<longleftrightarrow>
     p \<noteq> [] \<and> is_dir fs (butlast p) \<and> fs p = None \<and> fs' = fs(p \<mapsto> Dir)"
  by (auto simp: os_mkdir_def is_dir_def split: sum.splits entry.splits option.splits)

lemma os_mkdir_under_dir:
  "is_dir fs p \<Longrightarrow>
   os_mkdir fs (p @ [n]) =
     (case fs (p @ [n]) of None \<Rightarrow> Inr (fs(p @ [n] \<mapsto> Dir)) | Some _ \<Rightarrow> Inl FileExistsError)"
  by (simp add: os_mkdir_def is_dir_def)

lemma os_mkdir_is_dir: "is_dir fs p \<Longrightarrow> os_mkdir fs p = Inl FileExistsError"
  by (cases p rule: rev_cases)
     (simp add: os_mkdir_def, simp add: is_dir_snoc os_mkdir_under_dir)

lemma mkdir_is_dir: "is_dir fs p \<Longrightarrow> mkdir parents True fs p = Inr fs"
  by (subst mkdir.simps) (simp add: os_mkdir_is_dir)

lemma mkdir_under_dir:
  "is_dir fs p \<Longrightarrow>
   mkdir parents True fs (p @ [n]) =
     (case fs (p @ [n]) of
        None \<Rightarrow> Inr (fs(p @ [n] \<mapsto> Dir))
      | Some Dir \<Rightarrow> Inr fs
      | Some (File c) \<Rightarrow> Inl (FileExistsError, fs))"
  by (subst mkdir.simps)
     (auto simp: os_mkdir_under_dir is_dir_snoc split: option.splits entry.splits)

lemma mkdir_effect:
  "grows fs (final (mkdir parents exist_ok fs p)) \<and>
   (\<forall>q. final (mkdir parents exist_ok fs p) q \<noteq> fs q \<longrightarrow>
        prefix q p \<and> final (mkdir parents exist_ok fs p) q = Some Dir) \<and>
   (\<forall>fs'. mkdir parents exist_ok fs p = Inr fs' \<longrightarrow> is_dir fs' p)"
proof (induction parents exist_ok fs p rule: mkdir.induct)
  case (1 parents exist_ok fs p)
  show ?case
  proof (cases "os_mkdir fs p")
    case (Inr fs')
    then have *: "p \<noteq> []" "is_dir fs (butlast p)" "fs p = None" "fs' = fs(p \<mapsto> Dir)"
      by (simp_all add: os_mkdir_Inr)
    have m: "mkdir parents exist_ok fs p = Inr fs'"
      by (subst mkdir.simps) (simp add: Inr)
    have "is_dir fs' (butlast p @ [last p])"
      unfolding is_dir_snoc using *
      by (auto intro: grows_is_dir[OF grows_upd_Dir])
    with * have d: "is_dir fs' p" by simp
    have g: "grows fs fs'" using * by (simp add: grows_upd_Dir)
    have "\<forall>q. fs' q \<noteq> fs q \<longrightarrow> prefix q p \<and> fs' q = Some Dir"
      using * by simp
    with d g show ?thesis by (simp add: m)
  next
    case (Inl e)
    show ?thesis
    proof (cases "e = FileNotFoundError")
      case False
      with Inl have "mkdir parents exist_ok fs p =
          (if \<not> exist_ok \<or> \<not> is_dir fs p then Inl (e, fs) else Inr fs)"
        by (subst mkdir.simps) simp
      then show ?thesis by (auto simp: grows_refl)
    next
      case True
      show ?thesis
      proof (cases "\<not> parents \<or> p = []")
        case True
        with Inl \<open>e = FileNotFoundError\<close> have "mkdir parents exist_ok fs p = Inl (e, fs)"
          by (subst mkdir.simps) simp
        then show ?thesis by (simp add: grows_refl)
      next
        case False
        note IH1 = "1.IH"(1)[OF Inl \<open>e = FileNotFoundError\<close> False]
        show ?thesis
        proof (cases "mkdir True True fs (butlast p)")
          case (Inl r)
          with \<open>os_mkdir fs p = Inl e\<close> \<open>e = FileNotFoundError\<close> False
          have m: "mkdir parents exist_ok fs p = Inl r"
            by (subst mkdir.simps) simp
          obtain e' s where r: "r = (e', s)" by (cases r)
          from IH1 Inl r have "grows fs s"
            "\<forall>q. s q \<noteq> fs q \<longrightarrow> prefix q (butlast p) \<and> s q = Some Dir"
            by auto
          with m r show ?thesis
            by (auto intro: prefix_order.trans[OF _ prefixeq_butlast])
        next
          case (Inr fs1)
          note IH2 = "1.IH"(2)[OF \<open>os_mkdir fs p = Inl e\<close> \<open>e = FileNotFoundError\<close> False Inr]
          from \<open>os_mkdir fs p = Inl e\<close> \<open>e = FileNotFoundError\<close> False Inr
          have m: "mkdir parents exist_ok fs p = mkdir False exist_ok fs1 p"
            by (subst mkdir.simps) simp
          from IH1 Inr have a: "grows fs fs1"
            "\<forall>q. fs1 q \<noteq> fs q \<longrightarrow> prefix q (butlast p) \<and> fs1 q = Some Dir"
            by auto
          let ?s = "final (mkdir False exist_ok fs1 p)"
          from IH2 have b: "grows fs1 ?s"
            "\<forall>q. ?s q \<noteq> fs1 q \<longrightarrow> prefix q p \<and> ?s q = Some Dir"
            "\<forall>fs'. mkdir False exist_ok fs1 p = Inr fs' \<longrightarrow> is_dir fs' p"
            by auto
          have "grows fs ?s" using a(1) b(1) by (rule grows_trans)
          moreover have "\<forall>q. ?s q \<noteq> fs q \<longrightarrow> prefix q p \<and> ?s q = Some Dir"
          proof (intro allI impI)
            fix q assume d: "?s q \<noteq> fs q"
            show "prefix q p \<and> ?s q = Some Dir"
            proof (cases "?s q = fs1 q")
              case True
              with d a(2) have "prefix q (butlast p)" "fs1 q = Some Dir" by auto
              with True show ?thesis
                by (auto intro: prefix_order.trans[OF _ prefixeq_butlast])
            next
              case False
              with b(2) show ?thesis by auto
            qed
          qed
          ultimately show ?thesis using b(3) by (simp add: m)
        qed
      qed
    qed
  qed
qed

lemma mkdir_grows: "grows fs (final (mkdir parents exist_ok fs p))"
  using mkdir_effect by blast

lemma mkdir_Inr_is_dir: "mkdir parents exist_ok fs p = Inr fs' \<Longrightarrow> is_dir fs' p"
  using mkdir_effect by blast

lemma mkdir_frame:
  "final (mkdir parents exist_ok fs p) q \<noteq> fs q \<Longrightarrow>
   prefix q p \<and> final (mkdir parents exist_ok fs p) q = Some Dir"
  using mkdir_effect by blast

lemma mkdir_adds: "adds fs (final (mkdir parents exist_ok fs p)) {q. prefix q p} F"
  unfolding adds_def
proof
  fix q
  show "final (mkdir parents exist_ok fs p) q = fs q \<or>
        fs q = None \<and>
        (final (mkdir parents exist_ok fs p) q = Some Dir \<and> q \<in> {q. prefix q p} \<or>
         final (mkdir parents exist_ok fs p) q = Some (File []) \<and> q \<in> F)"
    using mkdir_frame[of parents exist_ok fs p q] mkdir_grows[of fs parents exist_ok p]
    unfolding grows_def by (metis mem_Collect_eq)
qed

lemma mkdir_no_parents:
  "mkdir False exist_ok fs p = Inr fs1 \<Longrightarrow> fs1 = fs \<or> fs1 = fs(p \<mapsto> Dir)"
  by (subst (asm) mkdir.simps) (auto simp: os_mkdir_Inr split: sum.splits if_splits)

lemma mkdir_parents_succeeds:
  "fs [] = Some Dir \<Longrightarrow> \<forall>q. prefix q p \<longrightarrow> fs q = None \<or> fs q = Some Dir \<Longrightarrow>
   \<exists>fs'. mkdir True True fs p = Inr fs'"
proof (induction p rule: rev_induct)
  case Nil
  then show ?case by (simp add: mkdir_is_dir is_dir_Nil)
next
  case (snoc n p)
  have here: "fs (p @ [n]) = None \<or> fs (p @ [n]) = Some Dir" using snoc.prems(2) by simp
  show ?case
  proof (cases "is_dir fs p")
    case True
    with here show ?thesis by (auto simp: mkdir_under_dir)
  next
    case False
    have nofile: "fs q \<noteq> Some (File c)" if "strict_prefix q (p @ [n])" for q c
    proof -
      from that have "prefix q (p @ [n])" by (auto simp: strict_prefix_def)
      with snoc.prems(2) have "fs q = None \<or> fs q = Some Dir" by blast
      then show ?thesis by auto
    qed
    have "stat fs p = Inl FileNotFoundError"
    proof (cases "stat fs p")
      case (Inl e)
      have "e \<noteq> NotADirectoryError"
      proof
        assume "e = NotADirectoryError"
        with Inl stat_NotADirectory[of fs p] obtain q c where
          "strict_prefix q p" "fs q = Some (File c)" by blast
        moreover from this have "strict_prefix q (p @ [n])"
          by (auto simp: strict_prefix_def prefix_def)
        ultimately show False using nofile by blast
      qed
      with stat_error_kinds[OF Inl] Inl show ?thesis by simp
    next
      case (Inr en)
      with False obtain c where "en = File c" by (cases en) (auto simp: is_dir_def)
      with Inr have "fs p = Some (File c)" by (auto dest: stat_Inr_entry)
      moreover have "strict_prefix p (p @ [n])" by (simp add: strict_prefix_def)
      ultimately show ?thesis using nofile by blast
    qed
    then have o: "os_mkdir fs (p @ [n]) = Inl FileNotFoundError"
      by (simp add: os_mkdir_def)
    from snoc.IH[OF snoc.prems(1)] snoc.prems(2) obtain fs1 where
      m1: "mkdir True True fs p = Inr fs1" by auto
    have d1: "is_dir fs1 p" using m1 by (rule mkdir_Inr_is_dir)
    have "fs1 (p @ [n]) = fs (p @ [n])"
      using mkdir_frame[of True True fs p "p @ [n]"] m1 by auto
    with here d1 obtain fs' where "mkdir False True fs1 (p @ [n]) = Inr fs'"
      by (auto simp: mkdir_under_dir)
    with o m1 show ?thesis by (subst mkdir.simps) simp
  qed
qed

subsection \<open>Creating files\<close>

lemma touch_exists: "exists_path fs p \<Longrightarrow> touch fs p = Inr fs"
  by (auto simp: touch_def os_utime_def exists_path_iff)

lemma touch_under_dir:
  "is_dir fs p \<Longrightarrow>
   touch fs (p @ [n]) =
     (case fs (p @ [n]) of None \<Rightarrow> Inr (fs(p @ [n] \<mapsto> File [])) | Some _ \<Rightarrow> Inr fs)"
  by (auto simp: touch_def os_utime_def os_open_creat_def stat_under_dir is_dir_def
           split: option.splits)

lemma touch_missing_parent:
  "stat fs p = Inl e \<Longrightarrow> touch fs (p @ [n]) = Inl (e, fs)"
  by (simp add: touch_def os_utime_def os_open_creat_def stat_snoc)

lemma touch_cases:
  "touch fs p = Inr fs \<and> exists_path fs p \<or>
   touch fs p = Inr (fs(p \<mapsto> File [])) \<and> fs p = None \<and> p \<noteq> [] \<and> is_dir fs (butlast p) \<or>
   (\<exists>e. touch fs p = Inl (e, fs))"
proof (cases p rule: rev_cases)
  case Nil
  then show ?thesis
    by (auto simp: touch_def os_utime_def os_open_creat_def exists_path_iff split: sum.splits)
next
  case (snoc q n)
  show ?thesis
  proof (cases "stat fs q")
    case (Inl e)
    then show ?thesis using snoc by (simp add: touch_missing_parent)
  next
    case (Inr en)
    show ?thesis
    proof (cases en)
      case Dir
      with Inr have "is_dir fs q" by (simp add: is_dir_def)
      then show ?thesis using snoc
        by (auto simp: touch_under_dir exists_path_iff stat_under_dir split: option.splits)
    next
      case (File c)
      with Inr snoc show ?thesis
        by (simp add: touch_def os_utime_def os_open_creat_def stat_snoc)
    qed
  qed
qed

lemma touch_grows: "grows fs (final (touch fs p))"
  using touch_cases[of fs p] by (auto simp: grows_refl grows_upd_File)

lemma touch_frame:
  "final (touch fs p) q \<noteq> fs q \<Longrightarrow> q = p \<and> final (touch fs p) q = Some (File [])"
  using touch_cases[of fs p] by (auto split: if_splits)

lemma touch_Inr_exists: "touch fs p = Inr fs' \<Longrightarrow> exists_path fs' p"
proof -
  assume t: "touch fs p = Inr fs'"
  from touch_cases[of fs p] t consider
    "fs' = fs" "exists_path fs p" |
    "fs' = fs(p \<mapsto> File [])" "fs p = None" "p \<noteq> []" "is_dir fs (butlast p)"
    by auto
  then show ?thesis
  proof cases
    case 1
    then show ?thesis by simp
  next
    case 2
    then have "is_dir fs' (butlast p)"
      by (auto intro: grows_is_dir[OF grows_upd_File])
    from stat_under_dir[OF this, of "last p"] 2 have "stat fs' p = Inr (File [])"
      by simp
    then show ?thesis by (simp add: exists_path_iff)
  qed
qed

lemma touch_Inl_same: "touch fs p = Inl (e, s) \<Longrightarrow> s = fs"
  using touch_cases[of fs p] by auto

lemma touch_adds: "adds fs (final (touch fs p)) D {p}"
  unfolding adds_def
proof
  fix q
  show "final (touch fs p) q = fs q \<or>
        fs q = None \<and>
        (final (touch fs p) q = Some Dir \<and> q \<in> D \<or>
         final (touch fs p) q = Some (File []) \<and> q \<in> {p})"
    using touch_frame[of fs p q] touch_grows[of fs p]
    unfolding grows_def by (metis singletonI)
qed

section \<open>What a run of the materialiser does\<close>

subsection \<open>The designated paths\<close>

lemma dir_paths_under:
  "q \<in> set (dir_paths P T) \<Longrightarrow> \<exists>n \<in> set (map fst T). prefix (P @ [n]) q"
proof (induction P T rule: dir_paths.induct)
  case (1 base_path)
  then show ?case by simp
next
  case (2 base_path name content rest)
  show ?case
  proof (cases content)
    case (Mapping sub)
    with 2 show ?thesis
      by (fastforce dest: append_prefixD)
  next
    case (Scalar v)
    with 2 show ?thesis by fastforce
  qed
qed

lemma file_paths_under:
  "q \<in> set (file_paths P T) \<Longrightarrow> \<exists>n \<in> set (map fst T). prefix (P @ [n]) q"
proof (induction P T rule: file_paths.induct)
  case (1 base_path)
  then show ?case by simp
next
  case (2 base_path name content rest)
  show ?case
  proof (cases content)
    case (Mapping sub)
    with 2 show ?thesis
      by (fastforce dest: append_prefixD)
  next
    case (Scalar v)
    with 2 show ?thesis by fastforce
  qed
qed

lemma prefix_snoc_same: "prefix (P @ [n]) q \<Longrightarrow> prefix (P @ [m]) q \<Longrightarrow> n = m"
  by (auto simp: prefix_def append_eq_append_conv2 Cons_eq_append_conv)

lemma under_not_prefix: "prefix (P @ [n]) q \<Longrightarrow> \<not> prefix q P"
  by (auto simp: prefix_def)

lemma prefix_snoc_cases: "prefix q (P @ [n]) \<Longrightarrow> q = P @ [n] \<or> prefix q P"
  by auto


lemma dir_file_paths_disjoint:
  "tree_ok T \<Longrightarrow> set (dir_paths P T) \<inter> set (file_paths P T) = {}"
proof (induction P T rule: dir_paths.induct)
  case (1 base_path)
  then show ?case by simp
next
  case (2 P name content rest)
  have other: "\<And>q m. prefix (P @ [name]) q \<Longrightarrow> m \<in> set (map fst rest) \<Longrightarrow> \<not> prefix (P @ [m]) q"
    using "2.prems" by (auto dest: prefix_snoc_same)
  have rest: "set (dir_paths P rest) \<inter> set (file_paths P rest) = {}"
    using 2 by simp
  show ?case
  proof (cases content)
    case (Mapping sub)
    have sub: "set (dir_paths (P @ [name]) sub) \<inter> set (file_paths (P @ [name]) sub) = {}"
      using 2 Mapping by simp
    have a: "P @ [name] \<notin> set (file_paths (P @ [name]) sub)"
      by (auto dest!: file_paths_under simp: prefix_def)
    have b: "P @ [name] \<notin> set (file_paths P rest)"
      using other[of "P @ [name]"] by (auto dest!: file_paths_under)
    have c: "set (dir_paths (P @ [name]) sub) \<inter> set (file_paths P rest) = {}"
    proof -
      { fix q assume "q \<in> set (dir_paths (P @ [name]) sub)" "q \<in> set (file_paths P rest)"
        then have "prefix (P @ [name]) q" "\<exists>m \<in> set (map fst rest). prefix (P @ [m]) q"
          by (auto dest!: dir_paths_under file_paths_under dest: append_prefixD)
        with other have False by blast }
      then show ?thesis by blast
    qed
    have d: "set (dir_paths P rest) \<inter> set (file_paths (P @ [name]) sub) = {}"
    proof -
      { fix q assume "q \<in> set (file_paths (P @ [name]) sub)" "q \<in> set (dir_paths P rest)"
        then have "prefix (P @ [name]) q" "\<exists>m \<in> set (map fst rest). prefix (P @ [m]) q"
          by (auto dest!: dir_paths_under file_paths_under dest: append_prefixD)
        with other have False by blast }
      then show ?thesis by blast
    qed
    from sub rest a b c d show ?thesis using Mapping by auto
  next
    case (Scalar v)
    have "P @ [name] \<notin> set (dir_paths P rest)"
      using other[of "P @ [name]"] by (auto dest!: dir_paths_under)
    with rest Scalar show ?thesis by auto
  qed
qed

lemma scalars_file_paths: "map fst (scalars P T) = file_paths P T"
  by (induction P T rule: file_paths.induct) (auto split: content.splits)

subsection \<open>Where a run writes\<close>

lemma cs_adds:
  "adds fs (final (create_structure P T fs))
        ({q. prefix q P} \<union> set (dir_paths P T)) (set (file_paths P T))"
proof (induction P T fs rule: create_structure.induct)
  case (1 base_path fs)
  show ?case by (simp add: adds_refl)
next
  case (2 P name content rest fs)
  let ?D = "{q. prefix q P} \<union> set (dir_paths P ((name, content) # rest))"
  let ?F = "set (file_paths P ((name, content) # rest))"
  show ?case
  proof (cases content)
    case (Mapping sub)
    have m: "adds fs (final (mkdir True True fs (P @ [name]))) ?D ?F"
      by (rule adds_mono[OF mkdir_adds[where F="{}"]]) (auto simp: Mapping)
    show ?thesis
    proof (cases "mkdir True True fs (P @ [name])")
      case (Inl r)
      with m Mapping show ?thesis by simp
    next
      case (Inr fs1)
      have s: "adds fs1 (final (create_structure (P @ [name]) sub fs1)) ?D ?F"
        by (rule adds_mono[OF "2.IH"(1)[OF Mapping Inr]])
           (auto simp: Mapping dest: prefix_snoc_cases)
      from m Inr have m': "adds fs fs1 ?D ?F" by simp
      show ?thesis
      proof (cases "create_structure (P @ [name]) sub fs1")
        case (Inl r)
        with adds_trans[OF m' s] Mapping \<open>mkdir True True fs (P @ [name]) = Inr fs1\<close>
        show ?thesis by simp
      next
        case (Inr fs2)
        have r: "adds fs2 (final (create_structure P rest fs2)) ?D ?F"
          by (rule adds_mono[OF "2.IH"(2)[OF Mapping \<open>mkdir True True fs (P @ [name]) = Inr fs1\<close> Inr]])
             (auto simp: Mapping)
        from s Inr have "adds fs1 fs2 ?D ?F" by simp
        from adds_trans[OF adds_trans[OF m' this] r]
        show ?thesis
          using Mapping \<open>mkdir True True fs (P @ [name]) = Inr fs1\<close> Inr by simp
      qed
    qed
  next
    case (Scalar v)
    have t: "adds fs (final (touch fs (P @ [name]))) ?D ?F"
      by (rule adds_mono[OF touch_adds[where D="{}"]]) (auto simp: Scalar)
    show ?thesis
    proof (cases "touch fs (P @ [name])")
      case (Inl r)
      with t Scalar show ?thesis by simp
    next
      case (Inr fs1)
      have r: "adds fs1 (final (create_structure P rest fs1)) ?D ?F"
        by (rule adds_mono[OF "2.IH"(3)[OF Scalar Inr]]) (auto simp: Scalar)
      from t Inr have "adds fs fs1 ?D ?F" by simp
      from adds_trans[OF this r] show ?thesis using Scalar Inr by simp
    qed
  qed
qed

lemma cs_grows: "grows fs (final (create_structure P T fs))"
  using cs_adds by (rule adds_grows)

lemma cs_Inr_grows: "create_structure P T fs = Inr fs' \<Longrightarrow> grows fs fs'"
  using cs_grows[of fs P T] by simp

lemma cs_append:
  "create_structure P (pre @ post) fs =
     (case create_structure P pre fs of
        Inl r \<Rightarrow> Inl r
      | Inr fs1 \<Rightarrow> create_structure P post fs1)"
proof (induction pre arbitrary: fs)
  case Nil
  show ?case by simp
next
  case (Cons x pre)
  obtain name content where x: "x = (name, content)" by (cases x)
  show ?case
    by (cases content) (simp_all add: x Cons.IH split: sum.splits)
qed

subsection \<open>What a run that returns has built\<close>

lemma cs_Inr_built:
  "create_structure P T fs = Inr fs' \<Longrightarrow>
   (\<forall>p \<in> set (dir_paths P T). is_dir fs' p) \<and> (\<forall>p \<in> set (file_paths P T). exists_path fs' p)"
proof (induction P T fs arbitrary: fs' rule: create_structure.induct)
  case (1 base_path fs)
  show ?case by simp
next
  case (2 P name content rest fs)
  show ?case
  proof (cases content)
    case (Mapping sub)
    from "2.prems" Mapping obtain fs1 fs2 where
      m: "mkdir True True fs (P @ [name]) = Inr fs1" and
      s: "create_structure (P @ [name]) sub fs1 = Inr fs2" and
      r: "create_structure P rest fs2 = Inr fs'"
      by (auto split: sum.splits)
    have g: "grows fs2 fs'" using r by (rule cs_Inr_grows)
    have "is_dir fs1 (P @ [name])" using m by (rule mkdir_Inr_is_dir)
    then have "is_dir fs2 (P @ [name])" using cs_Inr_grows[OF s] grows_is_dir by blast
    then have a: "is_dir fs' (P @ [name])" using g grows_is_dir by blast
    from "2.IH"(1)[OF Mapping m s] g
    have b: "\<forall>p \<in> set (dir_paths (P @ [name]) sub). is_dir fs' p"
      "\<forall>p \<in> set (file_paths (P @ [name]) sub). exists_path fs' p"
      by (auto intro: grows_is_dir grows_exists)
    from "2.IH"(2)[OF Mapping m s r] a b show ?thesis by (auto simp: Mapping)
  next
    case (Scalar v)
    from "2.prems" Scalar obtain fs1 where
      t: "touch fs (P @ [name]) = Inr fs1" and
      r: "create_structure P rest fs1 = Inr fs'"
      by (auto split: sum.splits)
    have "exists_path fs1 (P @ [name])" using t by (rule touch_Inr_exists)
    then have a: "exists_path fs' (P @ [name])"
      using cs_Inr_grows[OF r] grows_exists by blast
    from "2.IH"(3)[OF Scalar t r] a show ?thesis by (auto simp: Scalar)
  qed
qed

lemma cs_built_noop:
  "\<forall>p \<in> set (dir_paths P T). is_dir fs p \<Longrightarrow>
   \<forall>p \<in> set (file_paths P T). exists_path fs p \<Longrightarrow>
   create_structure P T fs = Inr fs"
proof (induction P T rule: dir_paths.induct)
  case (1 base_path)
  show ?case by simp
next
  case (2 P name content rest)
  show ?case
  proof (cases content)
    case (Mapping sub)
    with 2 show ?thesis by (simp add: mkdir_is_dir)
  next
    case (Scalar v)
    with 2 show ?thesis by (simp add: touch_exists)
  qed
qed

lemma file_path_stays_file:
  assumes ok: "tree_ok T" and run: "create_structure P T fs = Inr fs'"
    and p: "p \<in> set (file_paths P T)" and nd: "fs p \<noteq> Some Dir"
  shows "\<exists>c. stat fs' p = Inr (File c) \<and> (fs p = None \<longrightarrow> c = [])"
proof -
  from cs_Inr_built[OF run] p obtain e where e: "stat fs' p = Inr e"
    by (auto simp: exists_path_iff)
  then have at: "fs' p = Some e" by (rule stat_Inr_entry)
  have a: "adds fs fs' ({q. prefix q P} \<union> set (dir_paths P T)) (set (file_paths P T))"
    using cs_adds[of fs P T] run by simp
  from p have np: "\<not> prefix p P" by (auto dest!: file_paths_under dest: under_not_prefix)
  from p dir_file_paths_disjoint[OF ok, of P] have nd': "p \<notin> set (dir_paths P T)" by blast
  from a have "fs' p = fs p \<or> fs p = None \<and> fs' p = Some (File [])"
    unfolding adds_def using np nd' by blast
  with at nd show ?thesis
    by (cases e) (auto simp: e)
qed

subsection \<open>How a run fails below an existing base directory, and when it returns\<close>

lemma cs_Inl_FileExists:
  "is_dir fs P \<Longrightarrow> create_structure P T fs = Inl (e, s) \<Longrightarrow> e = FileExistsError"
proof (induction P T fs rule: create_structure.induct)
  case (1 base_path fs)
  then show ?case by simp
next
  case (2 P name content rest fs)
  show ?case
  proof (cases content)
    case (Mapping sub)
    show ?thesis
    proof (cases "mkdir True True fs (P @ [name])")
      case (Inl r)
      with "2.prems" Mapping show ?thesis
        by (auto simp: mkdir_under_dir split: option.splits entry.splits)
    next
      case (Inr fs1)
      note m = this
      have d1: "is_dir fs1 (P @ [name])" using m by (rule mkdir_Inr_is_dir)
      show ?thesis
      proof (cases "create_structure (P @ [name]) sub fs1")
        case (Inl r)
        with "2.prems" Mapping m have "create_structure (P @ [name]) sub fs1 = Inl (e, s)"
          by simp
        from "2.IH"(1)[OF Mapping m d1 this] show ?thesis .
      next
        case (Inr fs2)
        have "is_dir fs2 P"
          using d1 cs_Inr_grows[OF Inr] by (auto simp: is_dir_snoc intro: grows_is_dir)
        moreover from "2.prems" Mapping m Inr have "create_structure P rest fs2 = Inl (e, s)"
          by simp
        ultimately show ?thesis using "2.IH"(2)[OF Mapping m Inr] by blast
      qed
    qed
  next
    case (Scalar v)
    show ?thesis
    proof (cases "touch fs (P @ [name])")
      case (Inl r)
      with "2.prems" show ?thesis
        by (auto simp: touch_under_dir split: option.splits)
    next
      case (Inr fs1)
      have "grows fs fs1" using touch_grows[of fs "P @ [name]"] Inr by simp
      then have "is_dir fs1 P" using "2.prems"(1) by (rule grows_is_dir)
      moreover from "2.prems" Scalar Inr have "create_structure P rest fs1 = Inl (e, s)"
        by simp
      ultimately show ?thesis using "2.IH"(3)[OF Scalar Inr] by blast
    qed
  qed
qed


lemma cs_file_at_dir:
  assumes "is_dir fs P" and "p \<in> set (dir_paths P T)" and "fs p = Some (File c)"
  shows "\<exists>s. create_structure P T fs = Inl (FileExistsError, s)"
proof (cases "create_structure P T fs")
  case (Inl r)
  obtain e s where "r = (e, s)" by (cases r)
  with Inl cs_Inl_FileExists[OF assms(1), of T e s] show ?thesis by simp
next
  case (Inr fs')
  from cs_Inr_built[OF Inr] assms(2) have "fs' p = Some Dir" by (auto dest: is_dir_entry)
  moreover from grows_Some[OF cs_Inr_grows[OF Inr] assms(3)] have "fs' p = Some (File c)" .
  ultimately show ?thesis by simp
qed

lemma cs_succeeds:
  "tree_ok T \<Longrightarrow> is_dir fs P \<Longrightarrow>
   \<forall>p \<in> set (dir_paths P T). \<forall>c. fs p \<noteq> Some (File c) \<Longrightarrow>
   \<exists>fs'. create_structure P T fs = Inr fs'"
proof (induction P T arbitrary: fs rule: dir_paths.induct)
  case (1 base_path)
  show ?case by simp
next
  case (2 P name content rest)
  have other: "\<And>q. q \<in> set (dir_paths P rest) \<Longrightarrow> \<not> prefix (P @ [name]) q"
    using "2.prems"(1) by (auto dest!: dir_paths_under dest: prefix_snoc_same)
  have ok_rest: "tree_ok rest" using "2.prems"(1) by simp
  show ?case
  proof (cases content)
    case (Mapping sub)
    have "\<forall>c. fs (P @ [name]) \<noteq> Some (File c)"
      using "2.prems"(3) Mapping by simp
    then have "\<exists>fs1. mkdir True True fs (P @ [name]) = Inr fs1"
      using "2.prems"(2) by (cases "fs (P @ [name])") (auto simp: mkdir_under_dir split: entry.splits)
    then obtain fs1 where m: "mkdir True True fs (P @ [name]) = Inr fs1" ..
    have d1: "is_dir fs1 (P @ [name])" using m by (rule mkdir_Inr_is_dir)
    have a1: "adds fs fs1 {q. prefix q (P @ [name])} {}"
      using mkdir_adds[of fs True True "P @ [name]" "{}"] m by simp
    have f1: "\<forall>p \<in> set (dir_paths (P @ [name]) sub). \<forall>c. fs1 p \<noteq> Some (File c)"
      using "2.prems"(3) Mapping adds_File_old[OF a1] by fastforce
    have "tree_ok sub" using "2.prems"(1) Mapping by simp
    from "2.IH"(1)[OF Mapping this d1 f1] obtain fs2 where
      s: "create_structure (P @ [name]) sub fs1 = Inr fs2" by blast
    have d2: "is_dir fs2 P"
      using d1 cs_Inr_grows[OF s] by (auto simp: is_dir_snoc intro: grows_is_dir)
    have a2: "adds fs1 fs2 ({q. prefix q (P @ [name])} \<union> set (dir_paths (P @ [name]) sub))
               (set (file_paths (P @ [name]) sub))"
      using cs_adds[of fs1 "P @ [name]" sub] s by simp
    have f2: "\<forall>p \<in> set (dir_paths P rest). \<forall>c. fs2 p \<noteq> Some (File c)"
    proof (intro ballI allI notI)
      fix p c assume p: "p \<in> set (dir_paths P rest)" and f: "fs2 p = Some (File c)"
      from a2 consider "fs2 p = fs1 p" | "p \<in> set (file_paths (P @ [name]) sub)"
        unfolding adds_def using f by (metis entry.distinct(1) option.inject)
      then show False
      proof cases
        case 1
        with f have "fs p = Some (File c)" using adds_File_old[OF a1] by simp
        with "2.prems"(3) p show False by simp
      next
        case 2
        then have "prefix (P @ [name]) p"
          by (auto dest!: file_paths_under dest: append_prefixD)
        with other[OF p] show False by simp
      qed
    qed
    from "2.IH"(2)[OF ok_rest d2 f2] obtain fs' where "create_structure P rest fs2 = Inr fs'"
      by blast
    with m s Mapping show ?thesis by simp
  next
    case (Scalar v)
    have "\<exists>fs1. touch fs (P @ [name]) = Inr fs1 \<and> (fs1 = fs \<or> fs1 = fs(P @ [name] \<mapsto> File []))"
      using "2.prems"(2) by (cases "fs (P @ [name])") (auto simp: touch_under_dir)
    then obtain fs1 where t: "touch fs (P @ [name]) = Inr fs1"
      and fs1: "fs1 = fs \<or> fs1 = fs(P @ [name] \<mapsto> File [])" by blast
    have "grows fs fs1" using touch_grows[of fs "P @ [name]"] t by simp
    then have d1: "is_dir fs1 P" using "2.prems"(2) by (rule grows_is_dir)
    have f1: "\<forall>p \<in> set (dir_paths P rest). \<forall>c. fs1 p \<noteq> Some (File c)"
    proof (intro ballI allI)
      fix p c assume p: "p \<in> set (dir_paths P rest)"
      with other have "p \<noteq> P @ [name]" by auto
      with fs1 have "fs1 p = fs p" by auto
      with "2.prems"(3) p Scalar show "fs1 p \<noteq> Some (File c)" by simp
    qed
    from "2.IH"(2)[OF ok_rest d1 f1] obtain fs' where "create_structure P rest fs1 = Inr fs'"
      by blast
    with t Scalar show ?thesis by simp
  qed
qed

lemma cs_Inl_split:
  "create_structure P T fs = Inl (e, s) \<Longrightarrow>
   \<exists>pre name content post fs1.
     T = pre @ (name, content) # post \<and>
     create_structure P pre fs = Inr fs1 \<and>
     create_structure P [(name, content)] fs1 = Inl (e, s)"
proof (induction T arbitrary: fs)
  case Nil
  then show ?case by simp
next
  case (Cons x T)
  obtain name content where x: "x = (name, content)" by (cases x)
  have app: "create_structure P (x # T) fs =
      (case create_structure P [x] fs of Inl r \<Rightarrow> Inl r | Inr fs1 \<Rightarrow> create_structure P T fs1)"
    using cs_append[of P "[x]" T fs] by simp
  show ?case
  proof (cases "create_structure P [x] fs")
    case (Inl r)
    with app Cons.prems have "create_structure P [(name, content)] fs = Inl (e, s)"
      by (simp add: x)
    then have "x # T = [] @ (name, content) # T \<and> create_structure P [] fs = Inr fs \<and>
        create_structure P [(name, content)] fs = Inl (e, s)"
      by (simp add: x)
    then show ?thesis by blast
  next
    case (Inr fs0)
    with app Cons.prems have "create_structure P T fs0 = Inl (e, s)" by simp
    from Cons.IH[OF this] obtain pre n c post fs1 where
      T: "T = pre @ (n, c) # post" and
      p: "create_structure P pre fs0 = Inr fs1" and
      f: "create_structure P [(n, c)] fs1 = Inl (e, s)" by blast
    have "create_structure P (x # pre) fs = Inr fs1"
      using cs_append[of P "[x]" pre fs] Inr p by simp
    with T f have "x # T = (x # pre) @ (n, c) # post \<and>
        create_structure P (x # pre) fs = Inr fs1 \<and>
        create_structure P [(n, c)] fs1 = Inl (e, s)" by simp
    then show ?thesis by blast
  qed
qed

subsection \<open>The calls of a run\<close>

lemma run_calls_append:
  "run_calls (xs @ ys) fs =
     (case run_calls xs fs of Inl r \<Rightarrow> Inl r | Inr s \<Rightarrow> run_calls ys s)"
  by (induction xs arbitrary: fs) (auto split: sum.splits)

lemma trace_append:
  "trace (xs @ ys) fs =
     trace xs fs @ (case run_calls xs fs of Inl r \<Rightarrow> [] | Inr s \<Rightarrow> trace ys s)"
  by (induction xs arbitrary: fs) (auto split: sum.splits)

lemma calls_run: "run_calls (map fst (calls P T fs)) fs = create_structure P T fs"
proof (induction P T fs rule: create_structure.induct)
  case (1 base_path fs)
  show ?case by simp
next
  case (2 P name content rest fs)
  show ?case
  proof (cases content)
    case (Mapping sub)
    show ?thesis
    proof (cases "mkdir True True fs (P @ [name])")
      case (Inl r)
      with Mapping show ?thesis by simp
    next
      case (Inr fs1)
      note m = this
      note IH1 = "2.IH"(1)[OF Mapping m]
      show ?thesis
      proof (cases "create_structure (P @ [name]) sub fs1")
        case (Inl r)
        with Mapping m IH1 show ?thesis by (simp add: run_calls_append)
      next
        case (Inr fs2)
        with Mapping m IH1 "2.IH"(2)[OF Mapping m Inr] show ?thesis
          by (simp add: run_calls_append)
      qed
    qed
  next
    case (Scalar v)
    show ?thesis
    proof (cases "touch fs (P @ [name])")
      case (Inl r)
      with Scalar show ?thesis by simp
    next
      case (Inr fs1)
      with Scalar "2.IH"(3)[OF Scalar Inr] show ?thesis by simp
    qed
  qed
qed

lemma calls_trace: "trace (map fst (calls P T fs)) fs = calls P T fs"
proof (induction P T fs rule: create_structure.induct)
  case (1 base_path fs)
  show ?case by simp
next
  case (2 P name content rest fs)
  show ?case
  proof (cases content)
    case (Mapping sub)
    show ?thesis
    proof (cases "mkdir True True fs (P @ [name])")
      case (Inl r)
      with Mapping show ?thesis by simp
    next
      case (Inr fs1)
      note m = this
      note IH1 = "2.IH"(1)[OF Mapping m]
      show ?thesis
      proof (cases "create_structure (P @ [name]) sub fs1")
        case (Inl r)
        with Mapping m IH1 show ?thesis by (simp add: trace_append calls_run)
      next
        case (Inr fs2)
        with Mapping m IH1 "2.IH"(2)[OF Mapping m Inr] show ?thesis
          by (simp add: trace_append calls_run)
      qed
    qed
  next
    case (Scalar v)
    show ?thesis
    proof (cases "touch fs (P @ [name])")
      case (Inl r)
      with Scalar show ?thesis by simp
    next
      case (Inr fs1)
      with Scalar "2.IH"(3)[OF Scalar Inr] show ?thesis by simp
    qed
  qed
qed

lemma calls_append:
  "calls P (pre @ post) fs =
     calls P pre fs @
     (case create_structure P pre fs of Inl r \<Rightarrow> [] | Inr fs1 \<Rightarrow> calls P post fs1)"
proof (induction pre arbitrary: fs)
  case Nil
  show ?case by simp
next
  case (Cons x pre)
  obtain name content where x: "x = (name, content)" by (cases x)
  show ?case
    by (cases content) (simp_all add: x Cons.IH split: sum.splits)
qed

lemma calls_parent:
  "is_dir fs P \<Longrightarrow> (c, s) \<in> set (calls P T fs) \<Longrightarrow>
   call_path c \<noteq> [] \<and> is_dir s (butlast (call_path c))"
proof (induction P T fs rule: create_structure.induct)
  case (1 base_path fs)
  then show ?case by simp
next
  case (2 P name content rest fs)
  show ?case
  proof (cases content)
    case (Mapping sub)
    show ?thesis
    proof (cases "mkdir True True fs (P @ [name])")
      case (Inl r)
      with "2.prems" Mapping show ?thesis by auto
    next
      case (Inr fs1)
      note m = this
      have d1: "is_dir fs1 (P @ [name])" using m by (rule mkdir_Inr_is_dir)
      show ?thesis
      proof (cases "create_structure (P @ [name]) sub fs1")
        case (Inl r)
        with "2.prems" Mapping m "2.IH"(1)[OF Mapping m d1] show ?thesis by auto
      next
        case (Inr fs2)
        have d2: "is_dir fs2 P"
          using d1 cs_Inr_grows[OF Inr] by (auto simp: is_dir_snoc intro: grows_is_dir)
        from "2.prems" Mapping m Inr "2.IH"(1)[OF Mapping m d1] "2.IH"(2)[OF Mapping m Inr d2]
        show ?thesis by auto
      qed
    qed
  next
    case (Scalar v)
    show ?thesis
    proof (cases "touch fs (P @ [name])")
      case (Inl r)
      with "2.prems" Scalar show ?thesis by auto
    next
      case (Inr fs1)
      have "grows fs fs1" using touch_grows[of fs "P @ [name]"] Inr by simp
      then have d1: "is_dir fs1 P" using "2.prems"(1) by (rule grows_is_dir)
      from "2.prems" Scalar Inr "2.IH"(3)[OF Scalar Inr d1] show ?thesis by auto
    qed
  qed
qed

section \<open>Disks that are trees\<close>

lemma tree_disk_stat: "tree_disk fs \<Longrightarrow> stat fs p = Inr e \<longleftrightarrow> fs p = Some e"
proof
  assume "stat fs p = Inr e"
  then show "fs p = Some e" by (rule stat_Inr_entry)
next
  assume t: "tree_disk fs"
  show "fs p = Some e \<Longrightarrow> stat fs p = Inr e"
  proof (induction p arbitrary: e rule: rev_induct)
    case Nil
    then show ?case by (simp add: stat_Nil)
  next
    case (snoc n p)
    with t have "fs p = Some Dir" by (auto simp: tree_disk_def)
    then have "is_dir fs p" using snoc.IH by (simp add: is_dir_def)
    with snoc.prems show ?case by (simp add: stat_under_dir)
  qed
qed

lemma tree_disk_is_dir: "tree_disk fs \<Longrightarrow> is_dir fs p \<longleftrightarrow> fs p = Some Dir"
  by (simp add: is_dir_def tree_disk_stat)

lemma tree_disk_is_file: "tree_disk fs \<Longrightarrow> is_file fs p \<longleftrightarrow> (\<exists>c. fs p = Some (File c))"
  by (simp add: is_file_iff tree_disk_stat)

lemma tree_disk_exists: "tree_disk fs \<Longrightarrow> exists_path fs p \<longleftrightarrow> fs p \<noteq> None"
  by (auto simp: exists_path_iff tree_disk_stat)

lemma tree_disk_upd:
  assumes "tree_disk fs" and "p \<noteq> []" and "is_dir fs (butlast p)" and "fs p = None"
  shows "tree_disk (fs(p \<mapsto> e))"
  unfolding tree_disk_def
proof (intro conjI allI impI)
  show "(fs(p \<mapsto> e)) [] = Some Dir" using assms(1,2) by (simp add: tree_disk_def)
next
  fix q n assume a: "(fs(p \<mapsto> e)) (q @ [n]) \<noteq> None"
  have "fs q = Some Dir"
  proof (cases "q @ [n] = p")
    case True
    then have "butlast p = q" by auto
    with assms(3) show ?thesis by (auto dest: is_dir_entry)
  next
    case False
    with a assms(1) show ?thesis by (auto simp: tree_disk_def)
  qed
  moreover from this assms(4) have "q \<noteq> p" by auto
  ultimately show "(fs(p \<mapsto> e)) q = Some Dir" by simp
qed

lemma mkdir_tree_disk:
  "tree_disk fs \<Longrightarrow> tree_disk (final (mkdir parents exist_ok fs p))"
proof (induction parents exist_ok fs p rule: mkdir.induct)
  case (1 parents exist_ok fs p)
  show ?case
  proof (cases "os_mkdir fs p")
    case (Inr fs')
    then have "mkdir parents exist_ok fs p = Inr fs'" by (subst mkdir.simps) simp
    moreover from Inr "1.prems" have "tree_disk fs'"
      by (auto simp: os_mkdir_Inr intro: tree_disk_upd)
    ultimately show ?thesis by simp
  next
    case (Inl e)
    show ?thesis
    proof (cases "e = FileNotFoundError \<and> parents \<and> p \<noteq> []")
      case False
      with Inl have "final (mkdir parents exist_ok fs p) = fs"
        by (subst mkdir.simps) auto
      with "1.prems" show ?thesis by simp
    next
      case True
      then have c: "e = FileNotFoundError" "\<not> (\<not> parents \<or> p = [])" by simp_all
      note IH1 = "1.IH"(1)[OF Inl c "1.prems"]
      show ?thesis
      proof (cases "mkdir True True fs (butlast p)")
        case (Inl r)
        with \<open>os_mkdir fs p = Inl e\<close> c have "mkdir parents exist_ok fs p = Inl r"
          by (subst mkdir.simps) simp
        with IH1 Inl show ?thesis by simp
      next
        case (Inr fs1)
        with \<open>os_mkdir fs p = Inl e\<close> c
        have "mkdir parents exist_ok fs p = mkdir False exist_ok fs1 p"
          by (subst mkdir.simps) simp
        moreover from IH1 Inr have "tree_disk fs1" by simp
        ultimately show ?thesis
          using "1.IH"(2)[OF \<open>os_mkdir fs p = Inl e\<close> c Inr] by simp
      qed
    qed
  qed
qed

lemma touch_tree_disk: "tree_disk fs \<Longrightarrow> tree_disk (final (touch fs p))"
  using touch_cases[of fs p] by (auto intro: tree_disk_upd)

lemma cs_tree_disk: "tree_disk fs \<Longrightarrow> tree_disk (final (create_structure P T fs))"
proof (induction P T fs rule: create_structure.induct)
  case (1 base_path fs)
  then show ?case by simp
next
  case (2 P name content rest fs)
  show ?case
  proof (cases content)
    case (Mapping sub)
    from "2.prems" have m: "tree_disk (final (mkdir True True fs (P @ [name])))"
      by (rule mkdir_tree_disk)
    show ?thesis
    proof (cases "mkdir True True fs (P @ [name])")
      case (Inl r)
      with m Mapping show ?thesis by simp
    next
      case (Inr fs1)
      with m have t1: "tree_disk fs1" by simp
      note IH1 = "2.IH"(1)[OF Mapping Inr t1]
      show ?thesis
      proof (cases "create_structure (P @ [name]) sub fs1")
        case (Inl r)
        with IH1 Mapping \<open>mkdir True True fs (P @ [name]) = Inr fs1\<close> show ?thesis by simp
      next
        case (Inr fs2)
        with IH1 have "tree_disk fs2" by simp
        from "2.IH"(2)[OF Mapping \<open>mkdir True True fs (P @ [name]) = Inr fs1\<close> Inr this]
        show ?thesis using Mapping \<open>mkdir True True fs (P @ [name]) = Inr fs1\<close> Inr by simp
      qed
    qed
  next
    case (Scalar v)
    from "2.prems" have t: "tree_disk (final (touch fs (P @ [name])))"
      by (rule touch_tree_disk)
    show ?thesis
    proof (cases "touch fs (P @ [name])")
      case (Inl r)
      with t Scalar show ?thesis by simp
    next
      case (Inr fs1)
      with t have "tree_disk fs1" by simp
      from "2.IH"(3)[OF Scalar Inr this] show ?thesis using Scalar Inr by simp
    qed
  qed
qed

lemma tree_disk_missing_base:
  assumes "tree_disk fs" and "stat fs P = Inl FileNotFoundError"
  shows "list_all (\<lambda>q. fs q = None \<or> fs q = Some Dir) (prefixes (P @ [name]))"
proof -
  have "fs q = None \<or> fs q = Some Dir" if q: "prefix q (P @ [name])" for q
  proof (cases "fs q")
    case None
    then show ?thesis by simp
  next
    case (Some e)
    show ?thesis
    proof (cases e)
      case Dir
      with Some show ?thesis by simp
    next
      case (File c)
      with Some assms(1) have f: "stat fs q = Inr (File c)" by (simp add: tree_disk_stat)
      from q consider "q = P @ [name]" | "q = P" | "strict_prefix q P"
        by (auto simp: strict_prefix_def)
      then have False
      proof cases
        case 1
        with f have "is_dir fs P" by (auto dest: stat_Inr_parent)
        with assms(2) show False by (simp add: is_dir_def)
      next
        case 2
        with f assms(2) show False by simp
      next
        case 3
        from stat_through_file[OF f this] assms(2) show False by simp
      qed
      then show ?thesis ..
    qed
  qed
  then show ?thesis by (simp add: list_all_iff)
qed

section \<open>Runs on the small disks\<close>

lemmas prim_defs =
  mkdir.simps touch_def os_mkdir_def os_utime_def os_open_creat_def stat_def is_dir_def

lemma scenario_ok: "tree_ok scenario_tree"
  by (simp add: scenario_tree_def plain_name_def)

lemma scenario_base_dir: "is_dir scenario_disk scenario_base"
  by (simp add: scenario_base_def scenario_disk_def is_dir_def stat_def)

lemma scenario_run:
  "create_structure scenario_base scenario_tree scenario_disk = Inr scenario_done"
  unfolding scenario_base_def scenario_tree_def scenario_disk_def scenario_done_def
  by (simp add: prim_defs)

lemma occupied_run:
  "create_structure scenario_base scenario_tree occupied_disk = Inr occupied_done"
  unfolding scenario_base_def scenario_tree_def scenario_disk_def occupied_disk_def
    occupied_done_def
  by (simp add: prim_defs)

lemma kept_run:
  "create_structure scenario_base scenario_tree kept_disk = Inr kept_done"
  unfolding scenario_base_def scenario_tree_def scenario_disk_def kept_disk_def kept_done_def
  by (simp add: prim_defs)

lemma collision_ok: "tree_ok collision_tree"
  by (simp add: collision_tree_def plain_name_def)


lemma file_at_dir_run:
  "create_structure scenario_base collision_tree file_at_dir_disk =
     Inl (FileExistsError, file_at_dir_disk)"
  unfolding scenario_base_def collision_tree_def file_at_dir_disk_def scenario_disk_def
  by (simp add: prim_defs)




lemma scenario_tree_disk: "tree_disk scenario_disk"
  by (auto simp: tree_disk_def scenario_disk_def append_eq_Cons_conv split: if_splits)

lemma witness_tree_disks:
  "tree_disk occupied_disk" "tree_disk kept_disk" "tree_disk dir_at_file_disk"
  "tree_disk file_at_dir_disk" "tree_disk home_disk"
  by (auto simp: tree_disk_def scenario_disk_def occupied_disk_def kept_disk_def
        dir_at_file_disk_def file_at_dir_disk_def home_disk_def append_eq_Cons_conv
      split: if_splits)

section \<open>The catalog\<close>

lemma structure_ok: "tree_ok structure"
  unfolding structure_def by (simp add: plain_name_def)

lemma structure_keys: "map fst structure = [''whatsapp-web-clone'']"
  unfolding structure_def by simp

lemma structure_root: "P @ [''whatsapp-web-clone''] \<in> set (dir_paths P structure)"
  unfolding structure_def by simp

lemma structure_src:
  "P @ [''whatsapp-web-clone'', ''src''] \<in> set (dir_paths P structure)"
  unfolding structure_def by simp

lemma structure_package_json:
  "P @ [''whatsapp-web-clone'', ''package.json''] \<in> set (file_paths P structure)"
  unfolding structure_def by simp

lemma structure_under:
  "p \<in> set (dir_paths P structure) \<union> set (file_paths P structure) \<Longrightarrow>
   prefix (P @ [''whatsapp-web-clone'']) p"
  using dir_paths_under[of p P "structure"] file_paths_under[of p P "structure"]
  by (auto simp: structure_keys)

lemma home_base:
  "mkdir False True home_disk [''home'', ''whatsapp-web-clone''] =
     Inr (home_disk([''home'', ''whatsapp-web-clone''] \<mapsto> Dir))"
  unfolding home_disk_def by (simp add: prim_defs)

lemma home_returns:
  "\<exists>fs' msg. create_directory_structure [''home''] home_disk = Inr (fs', msg)"
proof -
  let ?d = "home_disk([''home'', ''whatsapp-web-clone''] \<mapsto> Dir)"
  have "is_dir ?d [''home'', ''whatsapp-web-clone'']"
    unfolding home_disk_def by (simp add: is_dir_def stat_def)
  moreover have "\<forall>p \<in> set (dir_paths [''home'', ''whatsapp-web-clone''] structure).
      \<forall>c. ?d p \<noteq> Some (File c)"
    unfolding home_disk_def by simp
  ultimately obtain fs' where
    "create_structure [''home'', ''whatsapp-web-clone''] structure ?d = Inr fs'"
    using cs_succeeds[OF structure_ok] by blast
  then show ?thesis by (simp add: create_directory_structure_def home_base)
qed

text \<open>The entry point makes the base directory before it calls the materialiser.\<close>

lemma entry_point_parent_before_child:
  assumes "mkdir False True fs (cwd @ [''whatsapp-web-clone'']) = Inr fs1"
    and "(c, s) \<in> set (calls (cwd @ [''whatsapp-web-clone'']) structure fs1)"
  shows "call_path c \<noteq> [] \<and> is_dir s (butlast (call_path c))"
  using calls_parent[OF mkdir_Inr_is_dir[OF assms(1)] assms(2)] .

section \<open>Runs on a system that can refuse\<close>

subsection \<open>Where the system does not refuse\<close>

lemma stat_from_on_allowed:
  "\<forall>q. prefix cur q \<and> prefix q (cur @ ns) \<longrightarrow> sys Sys_stat q = None \<Longrightarrow>
   stat_from_on sys fs cur ns =
     (case stat_from fs cur ns of Inl e \<Rightarrow> Inl (Kind e) | Inr en \<Rightarrow> Inr en)"
proof (induction ns arbitrary: cur)
  case Nil
  then have "sys Sys_stat cur = None" by simp
  then show ?case by (simp split: option.splits)
next
  case (Cons n ns)
  from Cons.prems have here: "sys Sys_stat cur = None" by simp
  have "\<forall>q. prefix (cur @ [n]) q \<and> prefix q ((cur @ [n]) @ ns) \<longrightarrow> sys Sys_stat q = None"
  proof (intro allI impI)
    fix q assume q: "prefix (cur @ [n]) q \<and> prefix q ((cur @ [n]) @ ns)"
    then have "prefix cur q" by (auto dest: append_prefixD)
    with q Cons.prems show "sys Sys_stat q = None" by simp
  qed
  from Cons.IH[OF this] here show ?case
    by (simp split: option.splits entry.splits)
qed

lemma resolve_on_allowed:
  "\<forall>q. prefix q p \<longrightarrow> allows sys q \<Longrightarrow>
   resolve_on sys fs p = (case stat fs p of Inl e \<Rightarrow> Inl (Kind e) | Inr en \<Rightarrow> Inr en)"
  unfolding resolve_on_def stat_def by (rule stat_from_on_allowed) (simp add: allows_def)

lemma stat_on_allowed:
  assumes "\<forall>q. prefix q p \<longrightarrow> allows sys q"
  shows "stat_on sys fs p = (case stat fs p of Inl e \<Rightarrow> Inl (Kind e) | Inr en \<Rightarrow> Inr en)"
proof -
  from assms have "sys Sys_path p = None" by (simp add: allows_def)
  then show ?thesis by (simp add: stat_on_def resolve_on_allowed[OF assms])
qed

lemma is_dir_on_allowed:
  assumes "\<forall>q. prefix q p \<longrightarrow> allows sys q"
  shows "is_dir_on sys fs p = Inr (is_dir fs p)"
  by (auto simp: is_dir_on_def stat_on_allowed[OF assms] is_dir_def split: sum.splits)

lemma allowed_butlast:
  "\<forall>q. prefix q p \<longrightarrow> allows sys q \<Longrightarrow> \<forall>q. prefix q (butlast p) \<longrightarrow> allows sys q"
  by (meson prefix_order.trans prefixeq_butlast)

lemma os_mkdir_on_allowed:
  assumes "\<forall>q. prefix q p \<longrightarrow> allows sys q"
  shows "os_mkdir_on sys fs p = (case os_mkdir fs p of Inl e \<Rightarrow> Inl (Kind e) | Inr s \<Rightarrow> Inr s)"
proof -
  from assms have m: "sys Sys_mkdir p = None" "sys Sys_path p = None"
    by (simp_all add: allows_def)
  have st: "resolve_on sys fs (butlast p) =
      (case stat fs (butlast p) of Inl e \<Rightarrow> Inl (Kind e) | Inr en \<Rightarrow> Inr en)"
    by (rule resolve_on_allowed) (rule allowed_butlast[OF assms])
  show ?thesis
    by (simp add: os_mkdir_on_def os_mkdir_def st m
        split: sum.splits entry.splits option.splits)
qed

lemma os_utime_on_allowed:
  assumes "\<forall>q. prefix q p \<longrightarrow> allows sys q"
  shows "os_utime_on sys fs p = (case os_utime fs p of Inl e \<Rightarrow> Inl (Kind e) | Inr s \<Rightarrow> Inr s)"
proof -
  from assms have u: "sys Sys_utime p = None" by (simp add: allows_def)
  show ?thesis
    by (simp add: os_utime_on_def os_utime_def stat_on_allowed[OF assms] u split: sum.splits)
qed

lemma os_open_creat_on_allowed:
  assumes "\<forall>q. prefix q p \<longrightarrow> allows sys q"
  shows "os_open_creat_on sys fs p =
           (case os_open_creat fs p of Inl e \<Rightarrow> Inl (Kind e) | Inr s \<Rightarrow> Inr s)"
proof -
  from assms have m: "sys Sys_open p = None" "sys Sys_path p = None"
    by (simp_all add: allows_def)
  have st: "resolve_on sys fs (butlast p) =
      (case stat fs (butlast p) of Inl e \<Rightarrow> Inl (Kind e) | Inr en \<Rightarrow> Inr en)"
    by (rule resolve_on_allowed) (rule allowed_butlast[OF assms])
  show ?thesis
    by (simp add: os_open_creat_on_def os_open_creat_def st m
        split: sum.splits entry.splits option.splits)
qed

lemma touch_on_allowed:
  "\<forall>q. prefix q p \<longrightarrow> allows sys q \<Longrightarrow> touch_on sys fs p = lift (touch fs p)"
  by (simp add: touch_on_def touch_def os_utime_on_allowed os_open_creat_on_allowed
      split: sum.splits)

lemma mkdir_on_allowed:
  "\<forall>q. prefix q p \<longrightarrow> allows sys q \<Longrightarrow>
   mkdir_on sys parents exist_ok fs p = lift (mkdir parents exist_ok fs p)"
proof (induction parents exist_ok fs p rule: mkdir.induct)
  case (1 parents exist_ok fs p)
  have os: "os_mkdir_on sys fs p =
      (case os_mkdir fs p of Inl e \<Rightarrow> Inl (Kind e) | Inr s \<Rightarrow> Inr s)" for fs
    by (rule os_mkdir_on_allowed) (rule "1.prems")
  have dir: "is_dir_on sys fs p = Inr (is_dir fs p)" for fs
    by (rule is_dir_on_allowed) (rule "1.prems")
  show ?case
  proof (cases "os_mkdir fs p")
    case (Inr fs')
    then show ?thesis
      by (subst mkdir_on.simps, subst mkdir.simps) (simp add: os)
  next
    case (Inl e)
    show ?thesis
    proof (cases "e = FileNotFoundError \<and> parents \<and> p \<noteq> []")
      case False
      with Inl show ?thesis
        by (subst mkdir_on.simps, subst mkdir.simps) (auto simp: os dir)
    next
      case True
      then have c: "e = FileNotFoundError" "\<not> (\<not> parents \<or> p = [])" by simp_all
      have up: "\<forall>q. prefix q (butlast p) \<longrightarrow> allows sys q"
        using "1.prems" by (meson prefix_order.trans prefixeq_butlast)
      note IH1 = "1.IH"(1)[OF Inl c up]
      show ?thesis
      proof (cases "mkdir True True fs (butlast p)")
        case (Inl r)
        obtain e' s where r: "r = (e', s)" by (cases r)
        from Inl r IH1 \<open>os_mkdir fs p = Inl e\<close> c show ?thesis
          by (subst mkdir_on.simps, subst mkdir.simps) (simp add: os)
      next
        case (Inr fs1)
        note IH2 = "1.IH"(2)[OF \<open>os_mkdir fs p = Inl e\<close> c Inr "1.prems"]
        from Inr IH1 IH2 \<open>os_mkdir fs p = Inl e\<close> c show ?thesis
          by (subst mkdir_on.simps, subst mkdir.simps) (simp add: os)
      qed
    qed
  qed
qed

lemma cs_on_allowed:
  "\<forall>q. prefix q P \<longrightarrow> allows sys q \<Longrightarrow>
   \<forall>q \<in> set (dir_paths P T) \<union> set (file_paths P T). allows sys q \<Longrightarrow>
   create_structure_on sys P T fs = lift (create_structure P T fs)"
proof (induction P T fs rule: create_structure.induct)
  case (1 base_path fs)
  show ?case by simp
next
  case (2 P name content rest fs)
  have rest: "\<forall>q \<in> set (dir_paths P rest) \<union> set (file_paths P rest). allows sys q"
    using "2.prems"(2) by auto
  show ?case
  proof (cases content)
    case (Mapping sub)
    have here: "\<forall>q. prefix q (P @ [name]) \<longrightarrow> allows sys q"
      using "2.prems" Mapping by auto
    have sub: "\<forall>q \<in> set (dir_paths (P @ [name]) sub) \<union> set (file_paths (P @ [name]) sub).
        allows sys q"
      using "2.prems"(2) Mapping by auto
    have m: "mkdir_on sys True True fs (P @ [name]) = lift (mkdir True True fs (P @ [name]))"
      by (rule mkdir_on_allowed) (rule here)
    show ?thesis
    proof (cases "mkdir True True fs (P @ [name])")
      case (Inl r)
      obtain e s where "r = (e, s)" by (cases r)
      with Inl m Mapping show ?thesis by simp
    next
      case (Inr fs1)
      note IH1 = "2.IH"(1)[OF Mapping Inr here sub]
      show ?thesis
      proof (cases "create_structure (P @ [name]) sub fs1")
        case (Inl r)
        obtain e s where "r = (e, s)" by (cases r)
        with Inl IH1 m Mapping \<open>mkdir True True fs (P @ [name]) = Inr fs1\<close>
        show ?thesis by simp
      next
        case (Inr fs2)
        from "2.IH"(2)[OF Mapping \<open>mkdir True True fs (P @ [name]) = Inr fs1\<close> Inr "2.prems"(1) rest]
          IH1 m Mapping \<open>mkdir True True fs (P @ [name]) = Inr fs1\<close> Inr
        show ?thesis by simp
      qed
    qed
  next
    case (Scalar v)
    have here: "\<forall>q. prefix q (P @ [name]) \<longrightarrow> allows sys q"
      using "2.prems" Scalar by auto
    have t: "touch_on sys fs (P @ [name]) = lift (touch fs (P @ [name]))"
      by (rule touch_on_allowed) (rule here)
    show ?thesis
    proof (cases "touch fs (P @ [name])")
      case (Inl r)
      obtain e s where "r = (e, s)" by (cases r)
      with Inl t Scalar show ?thesis by simp
    next
      case (Inr fs1)
      from "2.IH"(3)[OF Scalar Inr "2.prems"(1) rest] t Scalar Inr show ?thesis by simp
    qed
  qed
qed

lemma lenient_run: "create_structure_on lenient P T fs = lift (create_structure P T fs)"
  by (rule cs_on_allowed) (simp_all add: allows_def lenient_def)

subsection \<open>Resolution and the single calls\<close>

lemma stat_from_on_snoc:
  "stat_from_on sys fs cur (ns @ [n]) =
     (case stat_from_on sys fs cur ns of
        Inl e \<Rightarrow> Inl e
      | Inr (File _) \<Rightarrow> Inl (Kind NotADirectoryError)
      | Inr Dir \<Rightarrow>
          (case sys Sys_stat (cur @ ns @ [n]) of
             Some r \<Rightarrow> Inl (Refused r)
           | None \<Rightarrow>
               (case fs (cur @ ns @ [n]) of
                  None \<Rightarrow> Inl (Kind FileNotFoundError)
                | Some e \<Rightarrow> Inr e)))"
  by (induction ns arbitrary: cur) (auto split: option.splits entry.splits sum.splits)

lemma resolve_on_snoc:
  "resolve_on sys fs (p @ [n]) =
     (case resolve_on sys fs p of
        Inl e \<Rightarrow> Inl e
      | Inr (File _) \<Rightarrow> Inl (Kind NotADirectoryError)
      | Inr Dir \<Rightarrow>
          (case sys Sys_stat (p @ [n]) of
             Some r \<Rightarrow> Inl (Refused r)
           | None \<Rightarrow>
               (case fs (p @ [n]) of
                  None \<Rightarrow> Inl (Kind FileNotFoundError)
                | Some e \<Rightarrow> Inr e)))"
  by (simp add: resolve_on_def stat_from_on_snoc split: sum.splits entry.splits option.splits)

lemma touch_on_missing_parent:
  "resolve_on sys fs p = Inl e \<Longrightarrow> sys Sys_path (p @ [n]) = None \<Longrightarrow>
   touch_on sys fs (p @ [n]) = Inl (e, fs)"
  by (simp add: touch_on_def os_utime_on_def os_open_creat_on_def stat_on_def resolve_on_snoc)

lemma touch_on_directory:
  assumes "resolve_on sys fs p = Inr Dir" and "fs (p @ [n]) = Some Dir"
    and "sys Sys_path (p @ [n]) = None" and "sys Sys_stat (p @ [n]) = None"
  shows "touch_on sys fs (p @ [n]) =
           (if sys Sys_utime (p @ [n]) = None then Inr fs
            else Inl (Kind IsADirectoryError, fs))"
  using assms
  by (auto simp: touch_on_def os_utime_on_def os_open_creat_on_def stat_on_def resolve_on_snoc
           split: option.splits)

lemma mkdir_on_no_parents:
  "final_on (mkdir_on sys False exist_ok fs p) = fs \<or>
   fs p = None \<and> final_on (mkdir_on sys False exist_ok fs p) = fs(p \<mapsto> Dir)"
proof (cases "os_mkdir_on sys fs p")
  case (Inr fs')
  then have "fs p = None \<and> fs' = fs(p \<mapsto> Dir)"
    by (auto simp: os_mkdir_on_def split: if_splits sum.splits entry.splits option.splits)
  moreover from Inr have "mkdir_on sys False exist_ok fs p = Inr fs'"
    by (subst mkdir_on.simps) simp
  ultimately show ?thesis by simp
next
  case (Inl e)
  then have "final_on (mkdir_on sys False exist_ok fs p) = fs"
    by (subst mkdir_on.simps) (auto split: sum.splits bool.splits)
  then show ?thesis ..
qed

lemma mkdir_on_refused:
  assumes "resolve_on sys fs p = Inr Dir" and "fs (p @ [n]) = None"
    and "sys Sys_path (p @ [n]) = None" and "sys Sys_mkdir (p @ [n]) = Some r"
  shows "\<exists>e. mkdir_on sys parents True fs (p @ [n]) = Inl (Refused e, fs)"
proof -
  from assms have o: "os_mkdir_on sys fs (p @ [n]) = Inl (Refused r)"
    by (simp add: os_mkdir_on_def)
  show ?thesis
  proof (cases "sys Sys_stat (p @ [n])")
    case None
    with assms have "is_dir_on sys fs (p @ [n]) = Inr False"
      by (simp add: is_dir_on_def stat_on_def resolve_on_snoc)
    with o show ?thesis by (subst mkdir_on.simps) simp
  next
    case (Some r')
    with assms have "is_dir_on sys fs (p @ [n]) = Inl (Refused r')"
      by (simp add: is_dir_on_def stat_on_def resolve_on_snoc)
    with o show ?thesis by (subst mkdir_on.simps) simp
  qed
qed

lemma mkdir_on_missing_base:
  assumes missing: "stat fs P = Inl FileNotFoundError"
    and root: "fs [] = Some Dir"
    and free: "\<forall>q. prefix q (P @ [name]) \<longrightarrow> fs q = None \<or> fs q = Some Dir"
    and base: "\<forall>q. prefix q P \<longrightarrow> allows sys q"
    and taken: "sys Sys_path (P @ [name]) = None"
  shows "\<exists>fs0. mkdir True True fs P = Inr fs0 \<and> is_dir fs0 P \<and>
               fs0 (P @ [name]) = fs (P @ [name]) \<and>
               mkdir_on sys True True fs (P @ [name]) = mkdir_on sys False True fs0 (P @ [name])"
proof -
  from free have "\<forall>q. prefix q P \<longrightarrow> fs q = None \<or> fs q = Some Dir" by auto
  from mkdir_parents_succeeds[OF root this] obtain fs0 where
    m0: "mkdir True True fs P = Inr fs0" ..
  have d0: "is_dir fs0 P" using m0 by (rule mkdir_Inr_is_dir)
  have same: "fs0 (P @ [name]) = fs (P @ [name])"
    using mkdir_frame[of True True fs P "P @ [name]"] m0 by auto
  have "resolve_on sys fs P = Inl (Kind FileNotFoundError)"
    by (simp add: resolve_on_allowed[OF base] missing)
  with taken have o: "os_mkdir_on sys fs (P @ [name]) = Inl (Kind FileNotFoundError)"
    by (simp add: os_mkdir_on_def)
  have "mkdir_on sys True True fs P = lift (mkdir True True fs P)"
    by (rule mkdir_on_allowed) (rule base)
  with m0 have "mkdir_on sys True True fs P = Inr fs0" by simp
  with o have "mkdir_on sys True True fs (P @ [name]) = mkdir_on sys False True fs0 (P @ [name])"
    by (subst mkdir_on.simps) simp
  with m0 d0 same show ?thesis by blast
qed

lemmas prim_on_defs =
  mkdir_on.simps touch_on_def os_mkdir_on_def os_utime_on_def os_open_creat_on_def
  stat_on_def resolve_on_def is_dir_on_def

subsection \<open>Two runs on the small disks\<close>

lemma foreign_directory_run:
  "create_structure_on (foreign_entry [''tmp'', ''test1'', ''README.md'']) scenario_base
     collision_tree dir_at_file_disk =
   Inl (Kind IsADirectoryError, dir_at_file_disk([''tmp'', ''test1'', ''docs''] \<mapsto> Dir))"
  unfolding scenario_base_def collision_tree_def dir_at_file_disk_def scenario_disk_def
  by (simp add: prim_on_defs foreign_entry_def)

lemma long_name_plain: "plain_name long_name"
  by (auto simp: plain_name_def long_name_def dest: arg_cong[where f = length])

lemma long_name_run:
  "create_structure_on (name_limit 255) [''tmp'', ''test1'', ''new'']
     [(long_name, Mapping [])] scenario_disk =
   Inl (Refused NameTooLong, scenario_disk([''tmp'', ''test1'', ''new''] \<mapsto> Dir))"
  unfolding scenario_disk_def
  by (simp add: prim_on_defs name_limit_def long_name_def)

section \<open>The properties of the specification\<close>

subsection \<open>Structural fidelity\<close>

text \<open>
  C1 as stated is false: on a disk where a directory already has the name of a scalar
  node, the run returns and that path is still a directory, not a file.
\<close>

theorem structural_fidelity_counterexample:
  "create_structure scenario_base scenario_tree occupied_disk = Inr occupied_done \<and>
   \<not> structural_fidelity scenario_base scenario_tree occupied_done"
proof -
  have "\<not> is_file occupied_done [''tmp'', ''test1'', ''root'', ''b.txt'']"
    unfolding scenario_disk_def occupied_disk_def occupied_done_def
    by (simp add: is_file_def stat_def)
  then have "\<not> structural_fidelity scenario_base scenario_tree occupied_done"
    by (simp add: structural_fidelity_def scenario_base_def scenario_tree_def)
  with occupied_run show ?thesis by simp
qed

text \<open>
  C1, amended. After a run that returned, every path of a mapping node is a directory,
  and every path of a scalar node exists: as a file, unless the disk had a directory
  there before the run, which is then still in place.
\<close>

theorem structural_fidelity_amended:
  assumes "tree_ok T" and "create_structure P T fs = Inr fs'"
  shows "(\<forall>p \<in> set (dir_paths P T). is_dir fs' p) \<and>
         (\<forall>p \<in> set (file_paths P T). if fs p = Some Dir then is_dir fs' p else is_file fs' p)"
proof (intro conjI ballI)
  fix p assume "p \<in> set (dir_paths P T)"
  with cs_Inr_built[OF assms(2)] show "is_dir fs' p" by simp
next
  fix p assume p: "p \<in> set (file_paths P T)"
  show "if fs p = Some Dir then is_dir fs' p else is_file fs' p"
  proof (cases "fs p = Some Dir")
    case True
    from cs_Inr_built[OF assms(2)] p obtain e where e: "stat fs' p = Inr e"
      by (auto simp: exists_path_iff)
    moreover from True cs_Inr_grows[OF assms(2)] have "fs' p = Some Dir" by (rule grows_Some[rotated])
    ultimately have "e = Dir" by (auto dest: stat_Inr_entry)
    with e True show ?thesis by (simp add: is_dir_def)
  next
    case False
    with file_path_stays_file[OF assms p] show ?thesis by (auto simp: is_file_iff)
  qed
qed

theorem structural_fidelity_amended_witness:
  "tree_ok scenario_tree \<and>
   create_structure scenario_base scenario_tree occupied_disk = Inr occupied_done \<and>
   is_dir occupied_done [''tmp'', ''test1'', ''root''] \<and>
   is_dir occupied_done [''tmp'', ''test1'', ''root'', ''a''] \<and>
   is_file occupied_done [''tmp'', ''test1'', ''root'', ''a'', ''x.txt''] \<and>
   is_dir occupied_done [''tmp'', ''test1'', ''root'', ''b.txt'']"
  using structural_fidelity_amended[OF scenario_ok occupied_run] scenario_ok occupied_run
  by (simp add: scenario_base_def scenario_tree_def scenario_disk_def occupied_disk_def)

subsection \<open>Idempotence\<close>

text \<open>
  C2. A second run right after a run that returned changes nothing and raises nothing:
  it returns the disk the first run left behind.
\<close>

theorem idempotence:
  assumes "tree_ok T" and "create_structure P T fs = Inr fs'"
  shows "create_structure P T fs' = Inr fs'"
proof -
  from cs_Inr_built[OF assms(2)]
  have "\<forall>p \<in> set (dir_paths P T). is_dir fs' p" "\<forall>p \<in> set (file_paths P T). exists_path fs' p"
    by simp_all
  then show ?thesis by (rule cs_built_noop)
qed

theorem idempotence_witness:
  "tree_ok scenario_tree \<and>
   create_structure scenario_base scenario_tree scenario_disk = Inr scenario_done \<and>
   create_structure scenario_base scenario_tree scenario_done = Inr scenario_done"
  using idempotence[OF scenario_ok scenario_run] scenario_ok scenario_run by simp

subsection \<open>Non-destructiveness\<close>

text \<open>
  C3. Whatever a run does, and whether it returns or raises, a file that was on the disk
  before is on the disk after with the same bytes; and a file that is on the disk after
  was there before with these bytes, or was missing and is now an empty file at the path
  of a scalar node.
\<close>

theorem non_destructive:
  assumes "tree_ok T"
  shows "(stat fs q = Inr (File c) \<longrightarrow> stat (final (create_structure P T fs)) q = Inr (File c)) \<and>
         (final (create_structure P T fs) q = Some (File c) \<longrightarrow>
            fs q = Some (File c) \<or> fs q = None \<and> c = [] \<and> q \<in> set (file_paths P T))"
proof (intro conjI impI)
  assume "stat fs q = Inr (File c)"
  with cs_grows[of fs P T] show "stat (final (create_structure P T fs)) q = Inr (File c)"
    by (rule grows_stat)
next
  assume f: "final (create_structure P T fs) q = Some (File c)"
  have "adds fs (final (create_structure P T fs))
          ({q. prefix q P} \<union> set (dir_paths P T)) (set (file_paths P T))"
    by (rule cs_adds)
  then have "final (create_structure P T fs) q = fs q \<or>
      fs q = None \<and> final (create_structure P T fs) q = Some (File []) \<and> q \<in> set (file_paths P T)"
    unfolding adds_def using f by (metis entry.distinct(1) option.inject)
  with f show "fs q = Some (File c) \<or> fs q = None \<and> c = [] \<and> q \<in> set (file_paths P T)"
    by auto
qed

theorem non_destructive_witness:
  "tree_ok scenario_tree \<and>
   stat kept_disk [''tmp'', ''test1'', ''root'', ''b.txt''] = Inr (File ''data'') \<and>
   stat (final (create_structure scenario_base scenario_tree kept_disk))
     [''tmp'', ''test1'', ''root'', ''b.txt''] = Inr (File ''data'') \<and>
   final (create_structure scenario_base scenario_tree kept_disk)
     [''tmp'', ''test1'', ''root'', ''a'', ''x.txt''] = Some (File []) \<and>
   kept_disk [''tmp'', ''test1'', ''root'', ''a'', ''x.txt''] = None"
proof -
  have old: "stat kept_disk [''tmp'', ''test1'', ''root'', ''b.txt''] = Inr (File ''data'')"
    by (simp add: kept_disk_def scenario_disk_def stat_def)
  have new: "final (create_structure scenario_base scenario_tree kept_disk)
     [''tmp'', ''test1'', ''root'', ''a'', ''x.txt''] = Some (File [])"
    by (simp add: kept_run kept_done_def)
  have none: "kept_disk [''tmp'', ''test1'', ''root'', ''a'', ''x.txt''] = None"
    by (simp add: kept_disk_def scenario_disk_def)
  from non_destructive[OF scenario_ok, where fs = kept_disk and P = scenario_base
      and q = "[''tmp'', ''test1'', ''root'', ''b.txt'']" and c = "''data''"] old
  have "stat (final (create_structure scenario_base scenario_tree kept_disk))
     [''tmp'', ''test1'', ''root'', ''b.txt''] = Inr (File ''data'')" by simp
  moreover
  from non_destructive[OF scenario_ok, where fs = kept_disk and P = scenario_base
      and q = "[''tmp'', ''test1'', ''root'', ''a'', ''x.txt'']" and c = "[]"] new
  have "kept_disk [''tmp'', ''test1'', ''root'', ''a'', ''x.txt''] = Some (File []) \<or>
        kept_disk [''tmp'', ''test1'', ''root'', ''a'', ''x.txt''] = None" by auto
  ultimately show ?thesis using scenario_ok old new none by simp
qed

subsection \<open>Parents before children\<close>

text \<open>
  C4. A run is the sequence of its calls, each made on the disk the calls before it
  have left. Below an existing base directory, the calls for the entries \<open>pre\<close> of a
  mapping, with everything below them, all come before the first call for a later
  entry, and these later calls start from the disk that the run over \<open>pre\<close> returned.
  Every call of a run is made on a disk where the parent of the path it names is a
  directory. The entry point starts the run below a directory it has just made
  (\<open>entry_point_parent_before_child\<close>).
\<close>

theorem parent_before_child:
  assumes "tree_ok (pre @ post)" and "is_dir fs P"
  shows "run_calls (map fst (calls P (pre @ post) fs)) fs = create_structure P (pre @ post) fs \<and>
         trace (map fst (calls P (pre @ post) fs)) fs = calls P (pre @ post) fs \<and>
         calls P (pre @ post) fs =
           calls P pre fs @
           (case create_structure P pre fs of Inl r \<Rightarrow> [] | Inr fs1 \<Rightarrow> calls P post fs1) \<and>
         (\<forall>(c, s) \<in> set (calls P (pre @ post) fs).
            call_path c \<noteq> [] \<and> is_dir s (butlast (call_path c)))"
proof -
  have "\<forall>(c, s) \<in> set (calls P (pre @ post) fs).
          call_path c \<noteq> [] \<and> is_dir s (butlast (call_path c))"
    using calls_parent[OF assms(2), of _ _ "pre @ post"] by auto
  with calls_run[of P "pre @ post" fs] calls_trace[of P "pre @ post" fs]
    calls_append[of P pre post fs]
  show ?thesis by (simp only: simp_thms)
qed

theorem parent_before_child_witness:
  "tree_ok (before_tree @ after_tree) \<and> is_dir scenario_disk scenario_base \<and>
   (Touch [''tmp'', ''test1'', ''README.md''],
    scenario_disk([''tmp'', ''test1'', ''src''] \<mapsto> Dir,
                  [''tmp'', ''test1'', ''src'', ''main.py''] \<mapsto> File []))
     \<in> set (calls scenario_base (before_tree @ after_tree) scenario_disk) \<and>
   is_dir (scenario_disk([''tmp'', ''test1'', ''src''] \<mapsto> Dir,
                         [''tmp'', ''test1'', ''src'', ''main.py''] \<mapsto> File []))
     [''tmp'', ''test1'']"
proof -
  have ok: "tree_ok (before_tree @ after_tree)"
    by (simp add: before_tree_def after_tree_def plain_name_def)
  have m: "(Touch [''tmp'', ''test1'', ''README.md''],
      scenario_disk([''tmp'', ''test1'', ''src''] \<mapsto> Dir,
                    [''tmp'', ''test1'', ''src'', ''main.py''] \<mapsto> File []))
     \<in> set (calls scenario_base (before_tree @ after_tree) scenario_disk)"
    unfolding scenario_base_def before_tree_def after_tree_def scenario_disk_def
    by (simp add: prim_defs)
  from parent_before_child[OF ok scenario_base_dir]
  have "\<forall>(c, s) \<in> set (calls scenario_base (before_tree @ after_tree) scenario_disk).
          call_path c \<noteq> [] \<and> is_dir s (butlast (call_path c))"
    by (elim conjE)
  from bspec[OF this m]
  have "is_dir (scenario_disk([''tmp'', ''test1'', ''src''] \<mapsto> Dir,
                         [''tmp'', ''test1'', ''src'', ''main.py''] \<mapsto> File []))
     [''tmp'', ''test1'']" by simp
  with m ok scenario_base_dir show ?thesis by simp
qed

subsection \<open>Entries of the wrong kind\<close>




subsection \<open>Failure part of the way\<close>



subsection \<open>Seed content\<close>

text \<open>
  C7. Whatever the value of a scalar node is, if nothing is at its path before a run
  that returns, then after the run the path holds a file with no bytes.
\<close>

theorem seed_content_never_written:
  assumes "tree_ok T" and "(p, v) \<in> set (scalars P T)" and "fs p = None"
    and "create_structure P T fs = Inr fs'"
  shows "stat fs' p = Inr (File [])"
proof -
  from assms(2) have "p \<in> set (map fst (scalars P T))" by force
  then have "p \<in> set (file_paths P T)" by (simp add: scalars_file_paths)
  from file_path_stays_file[OF assms(1) assms(4) this] assms(3) show ?thesis by auto
qed

theorem seed_content_never_written_witness:
  "tree_ok [(''notes.txt'', Scalar ''hello'')] \<and>
   ([''tmp'', ''test1'', ''notes.txt''], ''hello'') \<in>
      set (scalars scenario_base [(''notes.txt'', Scalar ''hello'')]) \<and>
   scenario_disk [''tmp'', ''test1'', ''notes.txt''] = None \<and>
   create_structure scenario_base [(''notes.txt'', Scalar ''hello'')] scenario_disk
     = Inr (scenario_disk([''tmp'', ''test1'', ''notes.txt''] \<mapsto> File [])) \<and>
   stat (scenario_disk([''tmp'', ''test1'', ''notes.txt''] \<mapsto> File []))
     [''tmp'', ''test1'', ''notes.txt''] = Inr (File [])"
proof -
  have ok: "tree_ok [(''notes.txt'', Scalar ''hello'')]"
    by (simp add: plain_name_def)
  have node: "([''tmp'', ''test1'', ''notes.txt''], ''hello'') \<in>
      set (scalars scenario_base [(''notes.txt'', Scalar ''hello'')])"
    by (simp add: scenario_base_def)
  have none: "scenario_disk [''tmp'', ''test1'', ''notes.txt''] = None"
    by (simp add: scenario_disk_def)
  have run: "create_structure scenario_base [(''notes.txt'', Scalar ''hello'')] scenario_disk
     = Inr (scenario_disk([''tmp'', ''test1'', ''notes.txt''] \<mapsto> File []))"
    unfolding scenario_base_def scenario_disk_def by (simp add: prim_defs)
  from seed_content_never_written[OF ok node none run] ok node none run
  show ?thesis by simp
qed

subsection \<open>The two directions of a collision\<close>

text \<open>
  C8 as stated is false: a directory at the path of a scalar node is rejected when the
  caller may not set its times. \<^verbatim>\<open>touch\<close> then goes on to \<^verbatim>\<open>os.open\<close>, and the run raises
  \<^verbatim>\<open>IsADirectoryError\<close>.
\<close>

theorem foreign_directory_counterexample:
  "is_dir dir_at_file_disk [''tmp'', ''test1'', ''README.md''] \<and>
   [''tmp'', ''test1'', ''README.md''] \<in> set (file_paths scenario_base collision_tree) \<and>
   create_structure_on (foreign_entry [''tmp'', ''test1'', ''README.md'']) scenario_base
     collision_tree dir_at_file_disk =
   Inl (Kind IsADirectoryError, dir_at_file_disk([''tmp'', ''test1'', ''docs''] \<mapsto> Dir))"
proof -
  have "is_dir dir_at_file_disk [''tmp'', ''test1'', ''README.md'']"
    by (simp add: dir_at_file_disk_def scenario_disk_def is_dir_def stat_def)
  moreover have
    "[''tmp'', ''test1'', ''README.md''] \<in> set (file_paths scenario_base collision_tree)"
    by (simp add: scenario_base_def collision_tree_def)
  ultimately show ?thesis using foreign_directory_run by simp
qed

text \<open>
  C8, amended. Below an existing base directory that the system lets the caller
  resolve: a scalar entry whose path holds a directory that the caller can reach
  raises nothing and leaves the disk as it is exactly when the system lets the caller
  set the times of that directory; otherwise \<^verbatim>\<open>touch\<close> goes on to \<^verbatim>\<open>os.open\<close> and the run
  raises \<^verbatim>\<open>IsADirectoryError\<close> there. And on a system that refuses no call on the
  designated paths, only the other direction is rejected: if no path that the tree
  designates as a directory holds a file, the run returns, whatever directories are
  at the paths of scalar nodes, and these are still directories; if some such path
  holds a file, the run raises \<^verbatim>\<open>FileExistsError\<close>.
\<close>

theorem collision_directions:
  assumes "tree_ok T" and "plain_name name" and "is_dir fs P"
    and "list_all (allows sys) (prefixes P)"
  shows "(fs (P @ [name]) = Some Dir \<and>
          sys Sys_path (P @ [name]) = None \<and> sys Sys_stat (P @ [name]) = None \<longrightarrow>
            create_structure_on sys P [(name, Scalar v)] fs =
              (if sys Sys_utime (P @ [name]) = None then Inr fs
               else Inl (Kind IsADirectoryError, fs))) \<and>
         (list_all (allows sys) (dir_paths P T @ file_paths P T) \<longrightarrow>
            ((\<forall>p \<in> set (dir_paths P T). \<forall>c. fs p \<noteq> Some (File c)) \<longrightarrow>
               (\<exists>fs'. create_structure_on sys P T fs = Inr fs' \<and>
                      (\<forall>p \<in> set (file_paths P T). fs p = Some Dir \<longrightarrow> is_dir fs' p))) \<and>
            ((\<exists>p \<in> set (dir_paths P T). \<exists>c. fs p = Some (File c)) \<longrightarrow>
               (\<exists>s. create_structure_on sys P T fs = Inl (Kind FileExistsError, s))))"
proof (intro conjI impI)
  from assms(4) have base: "\<forall>q. prefix q P \<longrightarrow> allows sys q" by (simp add: list_all_iff)
  have sb: "resolve_on sys fs P = Inr Dir"
    using assms(3) by (simp add: resolve_on_allowed[OF base] is_dir_def)
  {
    assume "fs (P @ [name]) = Some Dir \<and>
      sys Sys_path (P @ [name]) = None \<and> sys Sys_stat (P @ [name]) = None"
    then have "touch_on sys fs (P @ [name]) =
        (if sys Sys_utime (P @ [name]) = None then Inr fs
         else Inl (Kind IsADirectoryError, fs))"
      using touch_on_directory[OF sb] by blast
    then show "create_structure_on sys P [(name, Scalar v)] fs =
        (if sys Sys_utime (P @ [name]) = None then Inr fs
         else Inl (Kind IsADirectoryError, fs))"
      by simp
  }
  assume "list_all (allows sys) (dir_paths P T @ file_paths P T)"
  then have "\<forall>q \<in> set (dir_paths P T) \<union> set (file_paths P T). allows sys q"
    by (auto simp: list_all_iff)
  with base have same: "create_structure_on sys P T fs = lift (create_structure P T fs)"
    by (rule cs_on_allowed)
  {
    assume "\<forall>p \<in> set (dir_paths P T). \<forall>c. fs p \<noteq> Some (File c)"
    from cs_succeeds[OF assms(1,3) this] obtain fs' where
      run: "create_structure P T fs = Inr fs'" ..
    have "\<forall>p \<in> set (file_paths P T). fs p = Some Dir \<longrightarrow> is_dir fs' p"
    proof (intro ballI impI)
      fix p assume p: "p \<in> set (file_paths P T)" and d: "fs p = Some Dir"
      from cs_Inr_built[OF run] p obtain e where e: "stat fs' p = Inr e"
        by (auto simp: exists_path_iff)
      moreover from grows_Some[OF cs_Inr_grows[OF run] d] have "fs' p = Some Dir" .
      ultimately have "e = Dir" by (auto dest: stat_Inr_entry)
      with e show "is_dir fs' p" by (simp add: is_dir_def)
    qed
    with run same show "\<exists>fs'. create_structure_on sys P T fs = Inr fs' \<and>
        (\<forall>p \<in> set (file_paths P T). fs p = Some Dir \<longrightarrow> is_dir fs' p)" by simp
  }
  {
    assume "\<exists>p \<in> set (dir_paths P T). \<exists>c. fs p = Some (File c)"
    then obtain p c where "p \<in> set (dir_paths P T)" "fs p = Some (File c)" by blast
    with assms(3) have "\<exists>s. create_structure P T fs = Inl (FileExistsError, s)"
      by (rule cs_file_at_dir)
    with same show "\<exists>s. create_structure_on sys P T fs = Inl (Kind FileExistsError, s)"
      by auto
  }
qed

theorem collision_directions_witness:
  "tree_ok collision_tree \<and> plain_name ''README.md'' \<and>
   is_dir dir_at_file_disk scenario_base \<and> is_dir file_at_dir_disk scenario_base \<and>
   dir_at_file_disk [''tmp'', ''test1'', ''README.md''] = Some Dir \<and>
   create_structure_on lenient scenario_base [(''README.md'', Scalar '''')] dir_at_file_disk =
     Inr dir_at_file_disk \<and>
   create_structure_on (foreign_entry [''tmp'', ''test1'', ''README.md'']) scenario_base
     [(''README.md'', Scalar '''')] dir_at_file_disk =
     Inl (Kind IsADirectoryError, dir_at_file_disk) \<and>
   (\<exists>fs'. create_structure_on lenient scenario_base collision_tree dir_at_file_disk = Inr fs' \<and>
          is_dir fs' [''tmp'', ''test1'', ''README.md'']) \<and>
   file_at_dir_disk [''tmp'', ''test1'', ''docs''] = Some (File ''x'') \<and>
   (\<exists>s. create_structure_on lenient scenario_base collision_tree file_at_dir_disk =
          Inl (Kind FileExistsError, s))"
proof -
  have n: "plain_name ''README.md''" by (simp add: plain_name_def)
  have b1: "is_dir dir_at_file_disk scenario_base"
    by (simp add: dir_at_file_disk_def scenario_disk_def scenario_base_def is_dir_def stat_def)
  have b2: "is_dir file_at_dir_disk scenario_base"
    by (simp add: file_at_dir_disk_def scenario_disk_def scenario_base_def is_dir_def stat_def)
  have l: "list_all (allows lenient) (prefixes scenario_base)"
    by (simp add: list_all_iff allows_def lenient_def)
  have f: "list_all (allows (foreign_entry [''tmp'', ''test1'', ''README.md'']))
             (prefixes scenario_base)"
    by (simp add: scenario_base_def allows_def foreign_entry_def)
  have all: "list_all (allows lenient)
               (dir_paths scenario_base collision_tree @ file_paths scenario_base collision_tree)"
    by (simp add: list_all_iff allows_def lenient_def)
  have d: "dir_at_file_disk [''tmp'', ''test1'', ''README.md''] = Some Dir"
    by (simp add: dir_at_file_disk_def)
  have d': "dir_at_file_disk (scenario_base @ [''README.md'']) = Some Dir"
    by (simp add: dir_at_file_disk_def scenario_base_def)
  have x: "file_at_dir_disk [''tmp'', ''test1'', ''docs''] = Some (File ''x'')"
    by (simp add: file_at_dir_disk_def)
  have free: "\<forall>p \<in> set (dir_paths scenario_base collision_tree).
                \<forall>c. dir_at_file_disk p \<noteq> Some (File c)"
    by (simp add: scenario_base_def collision_tree_def dir_at_file_disk_def scenario_disk_def)
  have taken: "\<exists>p \<in> set (dir_paths scenario_base collision_tree).
                 \<exists>c. file_at_dir_disk p = Some (File c)"
    by (simp add: scenario_base_def collision_tree_def file_at_dir_disk_def)
  from collision_directions[OF collision_ok n b1 l, where v = "''''"] d'
  have one: "create_structure_on lenient scenario_base [(''README.md'', Scalar '''')]
      dir_at_file_disk = Inr dir_at_file_disk"
    by (simp add: lenient_def)
  from collision_directions[OF collision_ok n b1 f, where v = "''''"] d'
  have two: "create_structure_on (foreign_entry [''tmp'', ''test1'', ''README.md''])
      scenario_base [(''README.md'', Scalar '''')] dir_at_file_disk =
      Inl (Kind IsADirectoryError, dir_at_file_disk)"
    by (simp add: foreign_entry_def scenario_base_def)
  from collision_directions[OF collision_ok n b1 l] all free
  have "\<exists>fs'. create_structure_on lenient scenario_base collision_tree dir_at_file_disk = Inr fs' \<and>
     (\<forall>p \<in> set (file_paths scenario_base collision_tree).
        dir_at_file_disk p = Some Dir \<longrightarrow> is_dir fs' p)" by blast
  then have three: "\<exists>fs'. create_structure_on lenient scenario_base collision_tree
      dir_at_file_disk = Inr fs' \<and> is_dir fs' [''tmp'', ''test1'', ''README.md'']"
    using d by (auto simp: scenario_base_def collision_tree_def)
  from collision_directions[OF collision_ok n b2 l] all taken
  have four: "\<exists>s. create_structure_on lenient scenario_base collision_tree file_at_dir_disk =
          Inl (Kind FileExistsError, s)" by blast
  from collision_ok n b1 b2 d one two three x four show ?thesis by simp
qed

subsection \<open>A base path that is not there\<close>

text \<open>
  C9. Let the base path not exist, on a disk with a root where every prefix of the
  path of the entry is a directory or missing (as it is whenever the parent of every
  entry is a directory), and let the system refuse no call on the base path and above
  it and take the path of the entry. Then the \<^verbatim>\<open>mkdir\<close> of a directory entry makes the
  base path with all that was missing above it, whatever becomes of the entry itself.
  If the system refuses nothing at the entry either, the entry is processed without
  error and the run goes on below the new directory. If the system refuses to make the
  entry, for a name that is too long say, the run raises that refusal once the base
  path is made. A scalar entry raises \<^verbatim>\<open>FileNotFoundError\<close> and leaves the disk as it
  was.
\<close>

theorem missing_base_path:
  assumes "plain_name name"
    and "stat fs P = Inl FileNotFoundError"
    and "fs [] = Some Dir"
    and "list_all (\<lambda>q. fs q = None \<or> fs q = Some Dir) (prefixes (P @ [name]))"
    and "list_all (allows sys) (prefixes P)"
    and "sys Sys_path (P @ [name]) = None"
  shows "\<not> is_dir fs P \<and>
         is_dir (final_on (mkdir_on sys True True fs (P @ [name]))) P \<and>
         (allows sys (P @ [name]) \<longrightarrow>
            (\<exists>fs1. mkdir_on sys True True fs (P @ [name]) = Inr fs1 \<and>
                   is_dir fs1 P \<and> is_dir fs1 (P @ [name]) \<and>
                   create_structure_on sys P [(name, Mapping [])] fs = Inr fs1 \<and>
                   create_structure_on sys P ((name, Mapping sub) # rest) fs =
                     (case create_structure_on sys (P @ [name]) sub fs1 of
                        Inl r \<Rightarrow> Inl r
                      | Inr fs2 \<Rightarrow> create_structure_on sys P rest fs2))) \<and>
         (fs (P @ [name]) = None \<and> sys Sys_mkdir (P @ [name]) \<noteq> None \<longrightarrow>
            (\<exists>e s. create_structure_on sys P ((name, Mapping sub) # rest) fs =
                     Inl (Refused e, s) \<and> is_dir s P)) \<and>
         create_structure_on sys P ((name, Scalar v) # rest) fs =
           Inl (Kind FileNotFoundError, fs)"
proof -
  from assms(4) have free: "\<forall>q. prefix q (P @ [name]) \<longrightarrow> fs q = None \<or> fs q = Some Dir"
    by (simp add: list_all_iff)
  from assms(5) have base: "\<forall>q. prefix q P \<longrightarrow> allows sys q"
    by (simp add: list_all_iff)
  from mkdir_on_missing_base[OF assms(2,3) free base assms(6)] obtain fs0 where
    d0: "is_dir fs0 P" and same: "fs0 (P @ [name]) = fs (P @ [name])" and
    step: "mkdir_on sys True True fs (P @ [name]) = mkdir_on sys False True fs0 (P @ [name])"
    by blast
  have sb0: "resolve_on sys fs0 P = Inr Dir"
    using d0 by (simp add: resolve_on_allowed[OF base] is_dir_def)
  have n: "\<not> is_dir fs P" using assms(2) by (simp add: is_dir_def)
  have made: "is_dir (final_on (mkdir_on sys True True fs (P @ [name]))) P"
  proof -
    from mkdir_on_no_parents[of sys True fs0 "P @ [name]"]
    have "grows fs0 (final_on (mkdir_on sys False True fs0 (P @ [name])))"
      by (auto simp: grows_refl grows_upd_Dir)
    from grows_is_dir[OF this d0] show ?thesis by (simp add: step)
  qed
  have ok: "\<exists>fs1. mkdir_on sys True True fs (P @ [name]) = Inr fs1 \<and>
                   is_dir fs1 P \<and> is_dir fs1 (P @ [name]) \<and>
                   create_structure_on sys P [(name, Mapping [])] fs = Inr fs1 \<and>
                   create_structure_on sys P ((name, Mapping sub) # rest) fs =
                     (case create_structure_on sys (P @ [name]) sub fs1 of
                        Inl r \<Rightarrow> Inl r
                      | Inr fs2 \<Rightarrow> create_structure_on sys P rest fs2)"
    if a: "allows sys (P @ [name])"
  proof -
    from base a have "\<forall>q. prefix q (P @ [name]) \<longrightarrow> allows sys q" by auto
    then have eq: "mkdir_on sys True True fs (P @ [name]) = lift (mkdir True True fs (P @ [name]))"
      by (rule mkdir_on_allowed)
    from mkdir_parents_succeeds[OF assms(3) free] obtain fs1 where
      m: "mkdir True True fs (P @ [name]) = Inr fs1" ..
    have d: "is_dir fs1 (P @ [name])" using m by (rule mkdir_Inr_is_dir)
    then have "is_dir fs1 P" by (simp add: is_dir_snoc)
    with d eq m show ?thesis by simp
  qed
  have refused: "\<exists>e s. create_structure_on sys P ((name, Mapping sub) # rest) fs =
                     Inl (Refused e, s) \<and> is_dir s P"
    if r: "fs (P @ [name]) = None \<and> sys Sys_mkdir (P @ [name]) \<noteq> None"
  proof -
    from r obtain x where x: "sys Sys_mkdir (P @ [name]) = Some x" by auto
    from r same have "fs0 (P @ [name]) = None" by simp
    from mkdir_on_refused[OF sb0 this assms(6) x, of False] obtain e where
      "mkdir_on sys False True fs0 (P @ [name]) = Inl (Refused e, fs0)" ..
    with step d0 show ?thesis by simp
  qed
  have "resolve_on sys fs P = Inl (Kind FileNotFoundError)"
    by (simp add: resolve_on_allowed[OF base] assms(2))
  then have t: "touch_on sys fs (P @ [name]) = Inl (Kind FileNotFoundError, fs)"
    using assms(6) by (rule touch_on_missing_parent)
  from n made ok refused t show ?thesis by simp
qed

theorem missing_base_path_witness:
  "plain_name ''docs'' \<and> plain_name long_name \<and>
   stat scenario_disk [''tmp'', ''test1'', ''new'', ''project''] = Inl FileNotFoundError \<and>
   scenario_disk [] = Some Dir \<and>
   (\<exists>fs1. create_structure_on (name_limit 255) [''tmp'', ''test1'', ''new'', ''project'']
            [(''docs'', Mapping [])] scenario_disk = Inr fs1 \<and>
          is_dir fs1 [''tmp'', ''test1'', ''new'', ''project''] \<and>
          is_dir fs1 ([''tmp'', ''test1'', ''new'', ''project''] @ [''docs''])) \<and>
   (\<exists>e s. create_structure_on (name_limit 255) [''tmp'', ''test1'', ''new'', ''project'']
            [(long_name, Mapping [])] scenario_disk = Inl (Refused e, s) \<and>
          is_dir s [''tmp'', ''test1'', ''new'', ''project'']) \<and>
   create_structure_on (name_limit 255) [''tmp'', ''test1'', ''new'', ''project'']
     [(''README.md'', Scalar ''''), (''docs'', Mapping [])] scenario_disk =
     Inl (Kind FileNotFoundError, scenario_disk)"
proof -
  have a: "plain_name ''docs''" "plain_name ''README.md''" by (simp_all add: plain_name_def)
  have b: "stat scenario_disk [''tmp'', ''test1'', ''new'', ''project''] = Inl FileNotFoundError"
    by (simp add: scenario_disk_def stat_def)
  have c: "scenario_disk [] = Some Dir" by (simp add: scenario_disk_def)
  have d: "list_all (\<lambda>q. scenario_disk q = None \<or> scenario_disk q = Some Dir)
             (prefixes ([''tmp'', ''test1'', ''new'', ''project''] @ [n]))" for n
    by (simp add: scenario_disk_def)
  have s: "list_all (allows (name_limit 255)) (prefixes [''tmp'', ''test1'', ''new'', ''project''])"
    by (simp add: allows_def name_limit_def)
  have ok: "allows (name_limit 255) ([''tmp'', ''test1'', ''new'', ''project''] @ [''docs''])"
    by (simp add: allows_def name_limit_def)
  have no: "scenario_disk ([''tmp'', ''test1'', ''new'', ''project''] @ [long_name]) = None \<and>
      name_limit 255 Sys_mkdir ([''tmp'', ''test1'', ''new'', ''project''] @ [long_name]) \<noteq> None"
    by (simp add: scenario_disk_def name_limit_def long_name_def)
  have p: "name_limit 255 Sys_path ([''tmp'', ''test1'', ''new'', ''project''] @ [n]) = None" for n
    by (simp add: name_limit_def)
  from missing_base_path[OF a(1) b c d s p, where sub = "[]" and rest = "[]"] ok
  have one: "\<exists>fs1. create_structure_on (name_limit 255) [''tmp'', ''test1'', ''new'', ''project'']
            [(''docs'', Mapping [])] scenario_disk = Inr fs1 \<and>
          is_dir fs1 [''tmp'', ''test1'', ''new'', ''project''] \<and>
          is_dir fs1 ([''tmp'', ''test1'', ''new'', ''project''] @ [''docs''])"
    by auto
  from missing_base_path[OF long_name_plain b c d s p, where sub = "[]" and rest = "[]"] no
  have two: "\<exists>e s. create_structure_on (name_limit 255) [''tmp'', ''test1'', ''new'', ''project'']
            [(long_name, Mapping [])] scenario_disk = Inl (Refused e, s) \<and>
          is_dir s [''tmp'', ''test1'', ''new'', ''project'']"
    by blast
  from missing_base_path[OF a(2) b c d s p, where v = "''''" and rest = "[(''docs'', Mapping [])]"]
  have three: "create_structure_on (name_limit 255) [''tmp'', ''test1'', ''new'', ''project'']
     [(''README.md'', Scalar ''''), (''docs'', Mapping [])] scenario_disk =
     Inl (Kind FileNotFoundError, scenario_disk)" by blast
  from a(1) long_name_plain b c one two three show ?thesis by simp
qed

subsection \<open>The entry point\<close>

text \<open>
  C10. The only key at the root of the catalog is the name of the base directory. So
  when the entry point returns, it has printed the base directory
  \<^verbatim>\<open>cwd/whatsapp-web-clone\<close>, and the project is one level below it: every directory of
  the catalog is a directory and every file of the catalog exists under
  \<^verbatim>\<open>cwd/whatsapp-web-clone/whatsapp-web-clone\<close>, for instance \<^verbatim>\<open>src\<close> and
  \<^verbatim>\<open>package.json\<close>; and whatever the run has changed on the disk is the base directory
  or lies below that second level.
\<close>

theorem doubly_nested_root:
  assumes "create_directory_structure cwd fs = Inr (fs', msg)"
  shows "map fst structure = [''whatsapp-web-clone''] \<and>
         msg = ''Project structure created successfully at: '' @
                 str_path (cwd @ [''whatsapp-web-clone'']) \<and>
         is_dir fs' (cwd @ [''whatsapp-web-clone'', ''whatsapp-web-clone'']) \<and>
         (\<forall>p \<in> set (dir_paths (cwd @ [''whatsapp-web-clone'']) structure).
            prefix (cwd @ [''whatsapp-web-clone'', ''whatsapp-web-clone'']) p \<and> is_dir fs' p) \<and>
         (\<forall>p \<in> set (file_paths (cwd @ [''whatsapp-web-clone'']) structure).
            prefix (cwd @ [''whatsapp-web-clone'', ''whatsapp-web-clone'']) p \<and>
            exists_path fs' p) \<and>
         is_dir fs' (cwd @ [''whatsapp-web-clone'', ''whatsapp-web-clone'', ''src'']) \<and>
         exists_path fs'
           (cwd @ [''whatsapp-web-clone'', ''whatsapp-web-clone'', ''package.json'']) \<and>
         (\<forall>q. fs' q \<noteq> fs q \<longrightarrow>
            q = cwd @ [''whatsapp-web-clone''] \<or>
            prefix (cwd @ [''whatsapp-web-clone'', ''whatsapp-web-clone'']) q)"
proof -
  let ?B = "cwd @ [''whatsapp-web-clone'']"
  from assms obtain fs1 where
    m: "mkdir False True fs ?B = Inr fs1" and
    run: "create_structure ?B structure fs1 = Inr fs'" and
    msg: "msg = ''Project structure created successfully at: '' @ str_path ?B"
    by (auto simp: create_directory_structure_def Let_def split: sum.splits)
  have under: "prefix (?B @ [''whatsapp-web-clone'']) p"
    if "p \<in> set (dir_paths ?B structure) \<union> set (file_paths ?B structure)" for p
    using structure_under[OF that] .
  note built = cs_Inr_built[OF run]
  have dirs: "\<forall>p \<in> set (dir_paths ?B structure).
      prefix (cwd @ [''whatsapp-web-clone'', ''whatsapp-web-clone'']) p \<and> is_dir fs' p"
    using built under by auto
  have files: "\<forall>p \<in> set (file_paths ?B structure).
      prefix (cwd @ [''whatsapp-web-clone'', ''whatsapp-web-clone'']) p \<and> exists_path fs' p"
    using built under by auto
  have root: "is_dir fs' (cwd @ [''whatsapp-web-clone'', ''whatsapp-web-clone''])"
    using built structure_root[of ?B] by auto
  have src: "is_dir fs' (cwd @ [''whatsapp-web-clone'', ''whatsapp-web-clone'', ''src''])"
    using built structure_src[of ?B] by auto
  have pkg: "exists_path fs'
      (cwd @ [''whatsapp-web-clone'', ''whatsapp-web-clone'', ''package.json''])"
    using built structure_package_json[of ?B] by auto
  have base: "is_dir fs1 ?B" using m by (rule mkdir_Inr_is_dir)
  have frame: "q = ?B \<or> prefix (cwd @ [''whatsapp-web-clone'', ''whatsapp-web-clone'']) q"
    if q: "fs' q \<noteq> fs q" for q
  proof (cases "fs1 q = fs q")
    case False
    from mkdir_no_parents[OF m] False have "fs1 = fs(?B \<mapsto> Dir)" by auto
    with False show ?thesis by (auto split: if_splits)
  next
    case True
    with q have ne: "fs' q \<noteq> fs1 q" by simp
    have "adds fs1 fs' ({q. prefix q ?B} \<union> set (dir_paths ?B structure))
            (set (file_paths ?B structure))"
      using cs_adds[of fs1 ?B "structure"] run by simp
    with ne have "fs1 q = None" and
      "prefix q ?B \<or> q \<in> set (dir_paths ?B structure) \<union> set (file_paths ?B structure)"
      unfolding adds_def by blast+
    moreover have "\<not> prefix q ?B" using base \<open>fs1 q = None\<close>
      by (auto simp: is_dir_iff)
    ultimately show ?thesis using under by auto
  qed
  from msg dirs files root src pkg frame show ?thesis by (simp add: structure_keys)
qed

theorem doubly_nested_root_witness:
  "\<exists>fs' msg.
     create_directory_structure [''home''] home_disk = Inr (fs', msg) \<and>
     msg = ''Project structure created successfully at: /home/whatsapp-web-clone'' \<and>
     is_dir fs' [''home'', ''whatsapp-web-clone'', ''whatsapp-web-clone'', ''src''] \<and>
     fs' [''home'', ''whatsapp-web-clone'', ''src''] = None"
proof -
  from home_returns obtain fs' msg where
    run: "create_directory_structure [''home''] home_disk = Inr (fs', msg)" by blast
  have none: "home_disk [''home'', ''whatsapp-web-clone'', ''src''] = None"
    by (simp add: home_disk_def)
  from doubly_nested_root[OF run] have
    "msg = ''Project structure created successfully at: '' @
             str_path ([''home''] @ [''whatsapp-web-clone''])"
    "is_dir fs' ([''home''] @ [''whatsapp-web-clone'', ''whatsapp-web-clone'', ''src''])"
    "fs' [''home'', ''whatsapp-web-clone'', ''src''] \<noteq>
       home_disk [''home'', ''whatsapp-web-clone'', ''src''] \<longrightarrow>
     [''home'', ''whatsapp-web-clone'', ''src''] = [''home''] @ [''whatsapp-web-clone''] \<or>
     prefix ([''home''] @ [''whatsapp-web-clone'', ''whatsapp-web-clone''])
       [''home'', ''whatsapp-web-clone'', ''src'']"
    by blast+
  with none run show ?thesis by (auto simp: str_path_def)
qed

end
